theory Spec2Isabelle
  imports Complex_Main "HOL-Library.Multiset"
begin

section \<open>Values and the distance primitive\<close>

text \<open>
  A venue is a Python dict from field names to values; the values the routing code
  reads and writes are numbers and strings.
\<close>

datatype val = Num real | Str string

type_synonym venue = "string \<rightharpoonup> val"

text \<open>
  \<open>calculate_distance\<close> (route_optimizer.py, lines 10-14) hands its four arguments to
  \<open>geopy.distance.geodesic\<close> and returns the kilometres. The library is not part of the
  repository, so the geodesic is a parameter of every function that measures a
  distance; the float it returns is read as the real it denotes. The coordinate type is
  left open, as Python
  leaves it: the router is called with number pairs, \<open>optimize_route\<close> with whatever the
  venue dicts hold.
\<close>

definition calculate_distance ::
  "('c \<times> 'c \<Rightarrow> 'c \<times> 'c \<Rightarrow> real) \<Rightarrow> 'c \<Rightarrow> 'c \<Rightarrow> 'c \<Rightarrow> 'c \<Rightarrow> real" where
  "calculate_distance geodesic lat1 lon1 lat2 lon2 = geodesic (lat1, lon1) (lat2, lon2)"

section \<open>Python's \<open>min\<close> with a key\<close>

text \<open>
  \<open>min(it, key=f)\<close> keeps the first item and replaces it only by an item whose key is
  strictly smaller, so among equal keys the first one met wins. \<open>min_from key x xs\<close> is
  the minimum of the non-empty sequence \<open>x # xs\<close>.
\<close>

fun min_from :: "('a \<Rightarrow> real) \<Rightarrow> 'a \<Rightarrow> 'a list \<Rightarrow> 'a" where
  "min_from key best [] = best"
| "min_from key best (x # xs) =
     (if key x < key best then min_from key x xs else min_from key best xs)"

section \<open>nearest_neighbor_route\<close>

text \<open>
  The loop \<open>while unvisited: ...\<close> of lines 49-56. \<open>unvisited\<close> is a Python set of the
  small integers \<open>0..n-1\<close>; CPython stores such an integer in the slot of its own value,
  so the set is enumerated in increasing order, and removing an element keeps the order
  of the others. The set is therefore the increasing list of its elements. The start is
  \<open>None\<close> or a pair; a pair is a non-empty tuple and so true in \<open>if start:\<close>.
\<close>

definition leg :: "('c \<times> 'c \<Rightarrow> 'c \<times> 'c \<Rightarrow> real) \<Rightarrow> ('c \<times> 'c) list \<Rightarrow> nat \<Rightarrow> nat \<Rightarrow> real" where
  "leg geodesic locations current i =
     calculate_distance geodesic (fst (locations ! current)) (snd (locations ! current))
       (fst (locations ! i)) (snd (locations ! i))"

function nn_loop ::
  "('c \<times> 'c \<Rightarrow> 'c \<times> 'c \<Rightarrow> real) \<Rightarrow> ('c \<times> 'c) list \<Rightarrow> nat \<Rightarrow> nat list \<Rightarrow> nat list \<Rightarrow> nat list" where
  "nn_loop geodesic locations current route [] = route"
| "nn_loop geodesic locations current route (u # us) =
     (let nearest = min_from (leg geodesic locations current) u us
      in nn_loop geodesic locations nearest (route @ [nearest]) (remove1 nearest (u # us)))"
  by pat_completeness auto

lemma min_from_in_set: "min_from key best xs \<in> set (best # xs)"
  by (induction xs arbitrary: best) auto

lemma length_remove1_min_from:
  "length (remove1 (min_from key u us) (u # us)) < length (u # us)"
  using min_from_in_set [of key u us] by (simp add: length_remove1 del: remove1.simps)

termination nn_loop
proof (relation "measure (\<lambda>(g, locs, cur, route, unvisited). length unvisited)")
  show "wf (measure (\<lambda>(g, locs, cur, route, unvisited). length unvisited))"
    by simp
next
  fix geodesic :: "'c \<times> 'c \<Rightarrow> 'c \<times> 'c \<Rightarrow> real" and locations :: "('c \<times> 'c) list"
    and current :: nat and route :: "nat list" and u :: nat and us :: "nat list" and x :: nat
  assume "x = min_from (leg geodesic locations current) u us"
  then show "((geodesic, locations, x, route @ [x], remove1 x (u # us)),
              (geodesic, locations, current, route, u # us))
             \<in> measure (\<lambda>(g, locs, cur, route, unvisited). length unvisited)"
    using length_remove1_min_from [of "leg geodesic locations current" u us] by simp
qed

definition nearest_neighbor_route ::
  "('c \<times> 'c \<Rightarrow> 'c \<times> 'c \<Rightarrow> real) \<Rightarrow> ('c \<times> 'c) list \<Rightarrow> ('c \<times> 'c) option \<Rightarrow> nat list" where
  "nearest_neighbor_route geodesic locations start =
     (if locations = [] then []
      else if length locations = 1 then [0]
      else
        let n = length locations;
            current = (case start of
                Some s \<Rightarrow>
                  min_from (\<lambda>i. calculate_distance geodesic (fst s) (snd s)
                                  (fst (locations ! i)) (snd (locations ! i))) 0 [1..<n]
              | None \<Rightarrow> 0)
        in nn_loop geodesic locations current [current] (remove1 current [0..<n]))"

text \<open>The starting index chosen by lines 38-43, named for the proofs.\<close>

definition start_index :: "('c \<times> 'c \<Rightarrow> 'c \<times> 'c \<Rightarrow> real) \<Rightarrow> ('c \<times> 'c) list \<Rightarrow> ('c \<times> 'c) option \<Rightarrow> nat" where
  "start_index g locs start = (case start of
                Some s \<Rightarrow>
                  min_from (\<lambda>i. calculate_distance g (fst s) (snd s)
                                  (fst (locs ! i)) (snd (locs ! i))) 0 [1..<length locs]
              | None \<Rightarrow> 0)"

section \<open>A distance for concrete evaluations\<close>

text \<open>
  The library's geodesic cannot be evaluated here. Concrete runs of the functions below
  use this simple distance on number pairs in its place: like the geodesic it is
  symmetric, non-negative and zero exactly between equal points.
\<close>

definition flat_km :: "real \<times> real \<Rightarrow> real \<times> real \<Rightarrow> real" where
  "flat_km a b = \<bar>fst a - fst b\<bar> + \<bar>snd a - snd b\<bar>"

section \<open>Float arithmetic\<close>

text \<open>
  Python floats are IEEE doubles. Comparing two floats is exact, and the distances that
  the geodesic returns are read as the reals they denote. Adding, dividing and
  multiplying floats rounds the result to a float and may overflow, so these operations
  are not the operations of the reals: they are parameters of the functions that use
  them. The loop of \<open>optimize_route\<close> adds distances; its float addition is the parameter
  \<open>fadd\<close>.

  \<open>round(x, ndigits)\<close> on a float rounds the exact value of \<open>x\<close> to the nearest multiple
  of \<open>10^-ndigits\<close>, a tie going to the even multiple, and returns the float that is
  written with that decimal; such a float is read as the decimal it is written with.
\<close>

definition py_round :: "real \<Rightarrow> int" where
  "py_round x =
     (let f = \<lfloor>x\<rfloor>; r = x - of_int f
      in if r < 1 / 2 then f else if 1 / 2 < r then f + 1 else if even f then f else f + 1)"

definition round_ndigits :: "real \<Rightarrow> nat \<Rightarrow> real" where
  "round_ndigits x ndigits = of_int (py_round (x * 10 ^ ndigits)) / 10 ^ ndigits"

section \<open>calculate_travel_time\<close>





section \<open>Venue dicts in the object store\<close>

text \<open>
  The venue lists hold references to dict objects, and \<open>optimize_route\<close> writes into
  the dicts it is given. The store maps a reference to the dict it names; a list of
  venues is a list of references, in which the same object may occur twice.
\<close>

type_synonym ref = nat

type_synonym heap = "ref \<Rightarrow> venue"

text \<open>\<open>d.get(key, default)\<close>.\<close>

definition dict_get :: "venue \<Rightarrow> string \<Rightarrow> val \<Rightarrow> val" where
  "dict_get d k dflt = (case d k of Some v \<Rightarrow> v | None \<Rightarrow> dflt)"

text \<open>The pair \<open>(loc.get('latitude', 0), loc.get('longitude', 0))\<close>.\<close>

definition coords_of :: "venue \<Rightarrow> val \<times> val" where
  "coords_of loc = (dict_get loc ''latitude'' (Num 0), dict_get loc ''longitude'' (Num 0))"

text \<open>The distance for concrete evaluations, on the values of a venue dict.\<close>

fun num :: "val \<Rightarrow> real" where
  "num (Num x) = x"
| "num (Str s) = 0"

definition flat_km_val :: "val \<times> val \<Rightarrow> val \<times> val \<Rightarrow> real" where
  "flat_km_val a b = flat_km (num (fst a), num (snd a)) (num (fst b), num (snd b))"

section \<open>cluster_by_proximity\<close>

text \<open>\<open>xs.pop(i)\<close> leaves the list without its element at index \<open>i\<close>.\<close>

definition pop_at :: "'a list \<Rightarrow> nat \<Rightarrow> 'a list" where
  "pop_at xs i = take i xs @ drop (Suc i) xs"

text \<open>
  The inner loop of lines 123-134: \<open>i\<close> walks over \<open>unassigned\<close>; a venue within
  \<open>max_distance_km\<close> of the cluster centre is popped into the cluster and \<open>i\<close> stays,
  otherwise \<open>i\<close> advances.
\<close>

function cluster_scan ::
  "(val \<times> val \<Rightarrow> val \<times> val \<Rightarrow> real) \<Rightarrow> heap \<Rightarrow> val \<times> val \<Rightarrow> real \<Rightarrow>
     ref list \<Rightarrow> ref list \<Rightarrow> nat \<Rightarrow> ref list \<times> ref list" where
  "cluster_scan geodesic h cluster_center max_distance_km cluster unassigned i =
     (if i < length unassigned then
        let loc = h (unassigned ! i);
            dist = calculate_distance geodesic (fst cluster_center) (snd cluster_center)
                     (dict_get loc ''latitude'' (Num 0)) (dict_get loc ''longitude'' (Num 0))
        in if dist \<le> max_distance_km
           then cluster_scan geodesic h cluster_center max_distance_km
                  (cluster @ [unassigned ! i]) (pop_at unassigned i) i
           else cluster_scan geodesic h cluster_center max_distance_km cluster unassigned (i + 1)
      else (cluster, unassigned))"
  by pat_completeness auto
termination
  by (relation "measure (\<lambda>(g, h, c, m, cluster, unassigned, i). length unassigned - i)")
     (auto simp: pop_at_def)

declare cluster_scan.simps [simp del]

text \<open>
  The outer loop of lines 117-136: the first unassigned venue seeds a new cluster, and
  its coordinates are the centre for the whole scan.
\<close>

function cluster_loop ::
  "(val \<times> val \<Rightarrow> val \<times> val \<Rightarrow> real) \<Rightarrow> heap \<Rightarrow> real \<Rightarrow> ref list list \<Rightarrow> ref list \<Rightarrow> ref list list" where
  "cluster_loop geodesic h max_distance_km clusters [] = clusters"
| "cluster_loop geodesic h max_distance_km clusters (u # us) =
     (let cluster = [u];
          cluster_center = (dict_get (h (cluster ! 0)) ''latitude'' (Num 0),
                            dict_get (h (cluster ! 0)) ''longitude'' (Num 0));
          scanned = cluster_scan geodesic h cluster_center max_distance_km cluster us 0
      in cluster_loop geodesic h max_distance_km (clusters @ [fst scanned]) (snd scanned))"
  by pat_completeness auto

lemma length_cluster_scan:
  "length (snd (cluster_scan g h c m cluster unassigned i)) \<le> length unassigned"
proof (induction g h c m cluster unassigned i rule: cluster_scan.induct)
  case (1 g h c m cluster unassigned i)
  show ?case
  proof (cases "i < length unassigned")
    case False
    then show ?thesis by (subst cluster_scan.simps) simp
  next
    case True
    let ?d = "calculate_distance g (fst c) (snd c)
        (dict_get (h (unassigned ! i)) ''latitude'' (Num 0))
        (dict_get (h (unassigned ! i)) ''longitude'' (Num 0))"
    show ?thesis
    proof (cases "?d \<le> m")
      case near: True
      have "length (snd (cluster_scan g h c m (cluster @ [unassigned ! i]) (pop_at unassigned i) i))
          \<le> length (pop_at unassigned i)"
        using "1.IH"(1) [OF True refl refl near] .
      moreover have "length (pop_at unassigned i) \<le> length unassigned"
        by (simp add: pop_at_def)
      ultimately show ?thesis using True near
        by (subst cluster_scan.simps) (simp add: Let_def)
    next
      case far: False
      have "length (snd (cluster_scan g h c m cluster unassigned (i + 1))) \<le> length unassigned"
        using "1.IH"(2) [OF True refl refl far] .
      then show ?thesis using True far
        by (subst cluster_scan.simps) (simp add: Let_def)
    qed
  qed
qed

termination cluster_loop
proof (relation "measure (\<lambda>(g, h, m, clusters, unassigned). length unassigned)")
  show "wf (measure (\<lambda>(g, h, m, clusters, unassigned). length unassigned))"
    by simp
next
  fix geodesic :: "val \<times> val \<Rightarrow> val \<times> val \<Rightarrow> real" and h :: heap and max_distance_km :: real
    and clusters :: "ref list list" and u :: ref and us :: "ref list" and x :: "ref list"
    and xa :: "val \<times> val" and xb :: "ref list \<times> ref list"
  assume "xb = cluster_scan geodesic h xa max_distance_km x us 0"
  then have "length (snd xb) \<le> length us" by (simp only: length_cluster_scan)
  then show "((geodesic, h, max_distance_km, clusters @ [fst xb], snd xb),
              (geodesic, h, max_distance_km, clusters, u # us))
             \<in> measure (\<lambda>(g, h, m, clusters, unassigned). length unassigned)"
    by simp
qed

definition cluster_by_proximity ::
  "(val \<times> val \<Rightarrow> val \<times> val \<Rightarrow> real) \<Rightarrow> heap \<Rightarrow> ref list \<Rightarrow> real \<Rightarrow> ref list list" where
  "cluster_by_proximity geodesic h locations max_distance_km =
     (if locations = [] then []
      else cluster_loop geodesic h max_distance_km [] locations)"

text \<open>
  The distance between two venues of the store, each read with the defaults of
  \<open>loc.get('latitude', 0)\<close> and \<open>loc.get('longitude', 0)\<close> (lines 88-91 and 126-129).
\<close>

definition venue_distance ::
  "(val \<times> val \<Rightarrow> val \<times> val \<Rightarrow> real) \<Rightarrow> heap \<Rightarrow> ref \<Rightarrow> ref \<Rightarrow> real" where
  "venue_distance geodesic h a b =
     calculate_distance geodesic
       (dict_get (h a) ''latitude'' (Num 0)) (dict_get (h a) ''longitude'' (Num 0))
       (dict_get (h b) ''latitude'' (Num 0)) (dict_get (h b) ''longitude'' (Num 0))"

text \<open>
  A store for concrete evaluations: venue \<open>r\<close> lies at latitude 0 and longitude
  \<open>lons ! r\<close>; any further reference names an empty dict.
\<close>

definition line_heap :: "real list \<Rightarrow> heap" where
  "line_heap lons r =
     (if r < length lons then [''latitude'' \<mapsto> Num 0, ''longitude'' \<mapsto> Num (lons ! r)]
      else Map.empty)"

section \<open>optimize_route\<close>

text \<open>\<open>obj[key] = v\<close> on the dict that \<open>r\<close> names.\<close>

definition set_field :: "heap \<Rightarrow> ref \<Rightarrow> string \<Rightarrow> val \<Rightarrow> heap" where
  "set_field h r k v = h(r := (h r)(k \<mapsto> v))"

text \<open>
  The loop of lines 85-93 over \<open>range(len(optimized) - 1)\<close>: it reads the two dicts from
  the store as it is at that moment, adds the distance to the total with the float
  addition \<open>fadd\<close> and writes the distance rounded to two places into the earlier dict.
\<close>

function distance_loop ::
  "(real \<Rightarrow> real \<Rightarrow> real) \<Rightarrow> (val \<times> val \<Rightarrow> val \<times> val \<Rightarrow> real) \<Rightarrow> ref list \<Rightarrow> nat \<Rightarrow> heap \<Rightarrow> real \<Rightarrow>
     heap \<times> real" where
  "distance_loop fadd geodesic optimized i h total_distance =
     (if i < length optimized - 1 then
        let loc1 = h (optimized ! i);
            loc2 = h (optimized ! (i + 1));
            dist = calculate_distance geodesic
                     (dict_get loc1 ''latitude'' (Num 0)) (dict_get loc1 ''longitude'' (Num 0))
                     (dict_get loc2 ''latitude'' (Num 0)) (dict_get loc2 ''longitude'' (Num 0))
        in distance_loop fadd geodesic optimized (i + 1)
             (set_field h (optimized ! i) ''distance_to_next'' (Num (round_ndigits dist 2)))
             (fadd total_distance dist)
      else (h, total_distance))"
  by pat_completeness auto
termination
  by (relation "measure (\<lambda>(fadd, g, optimized, i, h, total). length optimized - 1 - i)") auto

declare distance_loop.simps [simp del]

text \<open>
  The function returns the bare list \<open>[]\<close> for no venues (line 72) and the pair
  \<open>(optimized, total_distance)\<close> otherwise (line 98).
\<close>

datatype route_result = Bare "ref list" | WithTotal "ref list" real

fun route_of :: "route_result \<Rightarrow> ref list" where
  "route_of (Bare xs) = xs"
| "route_of (WithTotal xs t) = xs"

definition optimize_route ::
  "(real \<Rightarrow> real \<Rightarrow> real) \<Rightarrow> (val \<times> val \<Rightarrow> val \<times> val \<Rightarrow> real) \<Rightarrow> heap \<Rightarrow> ref list \<Rightarrow>
     (val \<times> val) option \<Rightarrow> heap \<times> route_result" where
  "optimize_route fadd geodesic h locations start_location =
     (if locations = [] then (h, Bare [])
      else
        let coords = map (\<lambda>loc. (dict_get (h loc) ''latitude'' (Num 0),
                                  dict_get (h loc) ''longitude'' (Num 0))) locations;
            route_order = nearest_neighbor_route geodesic coords start_location;
            optimized = map (\<lambda>i. locations ! i) route_order;
            looped = distance_loop fadd geodesic optimized 0 h 0;
            h' = (if length optimized > 0
                  then set_field (fst looped) (last optimized) ''distance_to_next'' (Num 0)
                  else fst looped)
        in (h', WithTotal optimized (snd looped)))"

text \<open>The reordered list of line 81, named for the proofs.\<close>

definition optimized_refs :: "(val \<times> val \<Rightarrow> val \<times> val \<Rightarrow> real) \<Rightarrow> heap \<Rightarrow> ref list \<Rightarrow> (val \<times> val) option \<Rightarrow> ref list" where
  "optimized_refs g h locations start =
     map (\<lambda>i. locations ! i)
       (nearest_neighbor_route g (map (\<lambda>r. coords_of (h r)) locations) start)"

text \<open>
  A venue dict with every missing coordinate written in as the number 0, and a store for
  concrete evaluations whose venues carry a longitude and no latitude key.
\<close>

definition with_default_coords :: "venue \<Rightarrow> venue" where
  "with_default_coords loc =
     loc(''latitude'' \<mapsto> dict_get loc ''latitude'' (Num 0),
         ''longitude'' \<mapsto> dict_get loc ''longitude'' (Num 0))"

definition lon_only_heap :: "real list \<Rightarrow> heap" where
  "lon_only_heap lons r =
     (if r < length lons then [''longitude'' \<mapsto> Num (lons ! r)] else Map.empty)"

section \<open>extract_locations and calculate_route (app.py)\<close>

text \<open>
  The plan is the dict that \<open>extract_locations\<close> reads with \<open>plan.get('hotels', [])\<close>,
  \<open>plan.get('attractions', {})\<close> and \<open>plan.get('restaurants', {})\<close>; a missing key
  is the empty list. Python dicts keep insertion order, so the two day dicts, and the
  meal dict that is iterated with \<open>items()\<close>, are association lists; the time-slot dict
  is only read with \<open>get\<close>.
\<close>

record plan =
  hotels :: "venue list"
  attractions :: "(string \<times> (string \<rightharpoonup> venue list)) list"
  restaurants :: "(string \<times> (string \<times> venue list) list) list"

datatype error = ValueError | KeyError

text \<open>Running a body that may raise over a list, in order, stopping at the first error.\<close>

fun traverse :: "('a \<Rightarrow> error + 'b) \<Rightarrow> 'a list \<Rightarrow> error + 'b list" where
  "traverse f [] = Inr []"
| "traverse f (x # xs) =
     (case f x of
        Inl e \<Rightarrow> Inl e
      | Inr y \<Rightarrow> (case traverse f xs of Inl e \<Rightarrow> Inl e | Inr ys \<Rightarrow> Inr (y # ys)))"

definition collect :: "('a \<Rightarrow> error + 'b list) \<Rightarrow> 'a list \<Rightarrow> error + 'b list" where
  "collect f xs = (case traverse f xs of Inl e \<Rightarrow> Inl e | Inr yss \<Rightarrow> Inr (concat yss))"

text \<open>
  Truth value of \<open>d.get(key)\<close>: a missing key gives \<open>None\<close>, which is false, as are
  the number 0 and the empty string.
\<close>

fun truthy :: "val option \<Rightarrow> bool" where
  "truthy None = False"
| "truthy (Some (Num x)) = (x \<noteq> 0)"
| "truthy (Some (Str s)) = (s \<noteq> [])"

text \<open>
  \<open>float(v)\<close>: a number is returned as it is; a string is parsed and raises ValueError
  when it is not a numeral. The parser is a parameter.
\<close>

definition py_float :: "(string \<Rightarrow> real option) \<Rightarrow> val \<Rightarrow> error + real" where
  "py_float parse v =
     (case v of
        Num x \<Rightarrow> Inr x
      | Str s \<Rightarrow> (case parse s of Some x \<Rightarrow> Inr x | None \<Rightarrow> Inl ValueError))"

text \<open>
  Lines 97-116. \<open>get_hotel_coordinates\<close> (lines 188-211) scans data files and returns a
  pair of floats or \<open>None\<close>, every exception being caught inside it; the files are not
  part of the program, so the lookup is the parameter \<open>lookup\<close>.
\<close>

definition hotel_entries :: "(val \<Rightarrow> val \<Rightarrow> (real \<times> real) option) \<Rightarrow> venue \<Rightarrow> venue list" where
  "hotel_entries lookup hotel =
     (let lat = dict_get hotel ''latitude'' (Num 0);
          lng = dict_get hotel ''longitude'' (Num 0);
          resolved =
            (if lat = Num 0 \<and> lng = Num 0
             then (case lookup (dict_get hotel ''name'' (Str '''')) (dict_get hotel ''address'' (Str '''')) of
                     Some coords \<Rightarrow> (Num (fst coords), Num (snd coords))
                   | None \<Rightarrow> (lat, lng))
             else (lat, lng))
      in if fst resolved \<noteq> Num 0 \<and> snd resolved \<noteq> Num 0
         then [[''name'' \<mapsto> dict_get hotel ''name'' (Str ''Hotel''),
                ''type'' \<mapsto> Str ''hotel'',
                ''lat'' \<mapsto> fst resolved,
                ''lng'' \<mapsto> snd resolved,
                ''price'' \<mapsto> dict_get hotel ''price'' (Num 0),
                ''rating'' \<mapsto> dict_get hotel ''rating'' (Num 0),
                ''address'' \<mapsto> dict_get hotel ''address'' (Str '''')]]
         else [])"

text \<open>Lines 122-132: one attraction of a day and time slot.\<close>

definition attraction_entries ::
  "(string \<Rightarrow> real option) \<Rightarrow> string \<Rightarrow> string \<Rightarrow> venue \<Rightarrow> error + venue list" where
  "attraction_entries parse day_key time_slot attraction =
     (if truthy (attraction ''latitude'') \<and> truthy (attraction ''longitude'')
      then
        (case py_float parse (dict_get attraction ''latitude'' (Num 0)) of
           Inl e \<Rightarrow> Inl e
         | Inr lat \<Rightarrow>
        (case py_float parse (dict_get attraction ''longitude'' (Num 0)) of
           Inl e \<Rightarrow> Inl e
         | Inr lng \<Rightarrow>
        (case py_float parse (dict_get attraction ''price'' (Num 0)) of
           Inl e \<Rightarrow> Inl e
         | Inr price \<Rightarrow>
        (case py_float parse (dict_get attraction ''rating'' (Num 0)) of
           Inl e \<Rightarrow> Inl e
         | Inr rating \<Rightarrow>
             Inr [[''name'' \<mapsto> dict_get attraction ''name'' (Str ''Attraction''),
                   ''type'' \<mapsto> Str ''attraction'',
                   ''lat'' \<mapsto> Num lat,
                   ''lng'' \<mapsto> Num lng,
                   ''price'' \<mapsto> Num price,
                   ''rating'' \<mapsto> Num rating,
                   ''day'' \<mapsto> Str day_key,
                   ''time'' \<mapsto> Str time_slot]]))))
      else Inr [])"

definition day_attraction_entries ::
  "(string \<Rightarrow> real option) \<Rightarrow> string \<times> (string \<rightharpoonup> venue list) \<Rightarrow> error + venue list" where
  "day_attraction_entries parse day =
     collect (\<lambda>time_slot.
        collect (attraction_entries parse (fst day) time_slot)
          (case snd day time_slot of Some xs \<Rightarrow> xs | None \<Rightarrow> []))
       [''morning'', ''evening'']"

text \<open>Lines 135-149: one restaurant of a day and meal.\<close>

definition restaurant_entries :: "string \<Rightarrow> string \<Rightarrow> venue \<Rightarrow> venue list" where
  "restaurant_entries day_key meal_type restaurant =
     (if restaurant ''latitude'' \<noteq> None \<and> restaurant ''longitude'' \<noteq> None
      then [[''name'' \<mapsto> dict_get restaurant ''name'' (Str ''Restaurant''),
             ''type'' \<mapsto> Str ''restaurant'',
             ''lat'' \<mapsto> dict_get restaurant ''latitude'' (Num 0),
             ''lng'' \<mapsto> dict_get restaurant ''longitude'' (Num 0),
             ''price'' \<mapsto> dict_get restaurant ''price'' (Num 0),
             ''rating'' \<mapsto> dict_get restaurant ''rating'' (Num 0),
             ''meal'' \<mapsto> Str meal_type,
             ''day'' \<mapsto> Str day_key]]
      else [])"

definition day_restaurant_entries :: "string \<times> (string \<times> venue list) list \<Rightarrow> venue list" where
  "day_restaurant_entries day =
     concat (map (\<lambda>meal. concat (map (restaurant_entries (fst day) (fst meal)) (snd meal)))
               (snd day))"

definition extract_locations ::
  "(val \<Rightarrow> val \<Rightarrow> (real \<times> real) option) \<Rightarrow> (string \<Rightarrow> real option) \<Rightarrow> plan \<Rightarrow> error + venue list" where
  "extract_locations lookup parse p =
     (let from_hotels = concat (map (hotel_entries lookup) (hotels p))
      in case collect (day_attraction_entries parse) (attractions p) of
           Inl e \<Rightarrow> Inl e
         | Inr from_attractions \<Rightarrow>
             Inr (from_hotels @ from_attractions
                  @ concat (map day_restaurant_entries (restaurants p))))"

text \<open>
  Lines 161-167: grouping by \<open>loc.get('day', 'Day 1')\<close> into a dict, which keeps the
  days in the order of their first location.
\<close>

fun add_to_day :: "val \<Rightarrow> venue \<Rightarrow> (val \<times> venue list) list \<Rightarrow> (val \<times> venue list) list" where
  "add_to_day day loc [] = [(day, [loc])]"
| "add_to_day day loc (entry # rest) =
     (if fst entry = day then (fst entry, snd entry @ [loc]) # rest
      else entry # add_to_day day loc rest)"

definition group_by_day :: "venue list \<Rightarrow> (val \<times> venue list) list" where
  "group_by_day locations =
     foldl (\<lambda>locations_by_day loc. add_to_day (dict_get loc ''day'' (Str ''Day 1'')) loc locations_by_day)
       [] locations"

text \<open>
  Line 174: \<open>{'latitude': l['lat'], 'longitude': l['lng'], **l}\<close>, a new dict; a
  subscript on a missing key raises KeyError.
\<close>

definition loc_for_opt :: "venue \<Rightarrow> error + venue" where
  "loc_for_opt l =
     (case l ''lat'' of
        None \<Rightarrow> Inl KeyError
      | Some lat \<Rightarrow>
          (case l ''lng'' of
             None \<Rightarrow> Inl KeyError
           | Some lng \<Rightarrow> Inr ([''latitude'' \<mapsto> lat, ''longitude'' \<mapsto> lng] ++ l)))"

text \<open>
  Lines 171-184 for one day. The dicts of \<open>locs_for_opt\<close> are new objects: the store
  handed to \<open>optimize_route\<close> names the \<open>r\<close>-th of them \<open>r\<close>. Unpacking the bare list
  that \<open>optimize_route\<close> returns for no venues into two names raises ValueError.
\<close>

definition day_route ::
  "(real \<Rightarrow> real \<Rightarrow> real) \<Rightarrow> (val \<times> val \<Rightarrow> val \<times> val \<Rightarrow> real) \<Rightarrow> val \<times> venue list \<Rightarrow>
     error + (val \<times> venue list \<times> real)" where
  "day_route fadd geodesic day =
     (if length (snd day) > 1 then
        (case traverse loc_for_opt (snd day) of
           Inl e \<Rightarrow> Inl e
         | Inr locs_for_opt \<Rightarrow>
             (let h = (\<lambda>r. if r < length locs_for_opt then locs_for_opt ! r else Map.empty);
                  result = optimize_route fadd geodesic h [0..<length locs_for_opt] None
              in case snd result of
                   WithTotal optimized total_dist \<Rightarrow>
                     Inr (fst day, map (fst result) optimized, total_dist)
                 | Bare xs \<Rightarrow> Inl ValueError))
      else Inr (fst day, snd day, 0))"

text \<open>\<open>calculate_route\<close> returns the bare list \<open>[]\<close> for fewer than two locations.\<close>

datatype routes = NoRoutes | DayRoutes "(val \<times> venue list \<times> real) list"

definition calculate_route ::
  "(real \<Rightarrow> real \<Rightarrow> real) \<Rightarrow> (val \<times> val \<Rightarrow> val \<times> val \<Rightarrow> real) \<Rightarrow>
     (val \<Rightarrow> val \<Rightarrow> (real \<times> real) option) \<Rightarrow> (string \<Rightarrow> real option) \<Rightarrow> plan \<Rightarrow> error + routes" where
  "calculate_route fadd geodesic lookup parse p =
     (case extract_locations lookup parse p of
        Inl e \<Rightarrow> Inl e
      | Inr locations \<Rightarrow>
          if length locations < 2 then Inr NoRoutes
          else (case traverse (day_route fadd geodesic) (group_by_day locations) of
                  Inl e \<Rightarrow> Inl e
                | Inr rs \<Rightarrow> Inr (DayRoutes rs)))"

text \<open>
  The fields \<open>plan\<close>, \<open>locations\<close> and \<open>route\<close> of the response of
  \<open>get_recommendations\<close> (lines 73-82), for a plan already made.
\<close>

record response =
  resp_plan :: plan
  resp_locations :: "venue list"
  resp_route :: routes

definition build_response ::
  "(real \<Rightarrow> real \<Rightarrow> real) \<Rightarrow> (val \<times> val \<Rightarrow> val \<times> val \<Rightarrow> real) \<Rightarrow>
     (val \<Rightarrow> val \<Rightarrow> (real \<times> real) option) \<Rightarrow> (string \<Rightarrow> real option) \<Rightarrow> plan \<Rightarrow> error + response" where
  "build_response fadd geodesic lookup parse p =
     (case extract_locations lookup parse p of
        Inl e \<Rightarrow> Inl e
      | Inr locations \<Rightarrow>
          (case calculate_route fadd geodesic lookup parse p of
             Inl e \<Rightarrow> Inl e
           | Inr route \<Rightarrow>
               Inr \<lparr>resp_plan = p, resp_locations = locations, resp_route = route\<rparr>))"

section \<open>Properties of \<open>min\<close>\<close>

lemma min_from_le: "\<forall>j\<in>set (best # xs). key (min_from key best xs) \<le> key j"
proof (induction xs arbitrary: best)
  case Nil
  then show ?case by simp
next
  case (Cons x xs)
  show ?case
  proof (cases "key x < key best")
    case True
    then show ?thesis using Cons.IH [of x] by force
  next
    case False
    then show ?thesis using Cons.IH [of best] by force
  qed
qed

lemma min_from_split:
  "\<exists>ys zs. best # xs = ys @ min_from key best xs # zs
      \<and> (\<forall>y\<in>set ys. key (min_from key best xs) < key y)"
proof (induction xs arbitrary: best)
  case Nil
  have "[best] = [] @ best # [] \<and> (\<forall>y\<in>set []. key best < key y)" by simp
  then show ?case unfolding min_from.simps by blast
next
  case (Cons x xs)
  show ?case
  proof (cases "key x < key best")
    case True
    obtain ys zs where s: "x # xs = ys @ min_from key x xs # zs"
      and l: "\<forall>y\<in>set ys. key (min_from key x xs) < key y"
      using Cons.IH [of x] by blast
    have "key (min_from key x xs) \<le> key x" using min_from_le [of x xs key] by simp
    then have "key (min_from key x xs) < key best" using True by simp
    then have "best # x # xs = (best # ys) @ min_from key x xs # zs \<and>
       (\<forall>y\<in>set (best # ys). key (min_from key x xs) < key y)"
      using s l by simp
    then show ?thesis using True by (metis min_from.simps(2))
  next
    case False
    obtain ys zs where s: "best # xs = ys @ min_from key best xs # zs"
      and l: "\<forall>y\<in>set ys. key (min_from key best xs) < key y"
      using Cons.IH [of best] by blast
    show ?thesis
    proof (cases ys)
      case Nil
      have "best # xs = min_from key best xs # zs" using s unfolding Nil by (simp only: append_Nil)
      then have "min_from key best xs = best" and "zs = xs" by (metis list.inject)+
      then have "best # x # xs = [] @ min_from key best xs # (x # zs)
          \<and> (\<forall>y\<in>set []. key (min_from key best xs) < key y)" 
        by simp
      then show ?thesis using False by (metis min_from.simps(2))
    next
      case (Cons y ys')
      have "best # xs = y # (ys' @ min_from key best xs # zs)"
        using s unfolding Cons by (simp only: append_Cons)
      then have b: "y = best" and xs: "xs = ys' @ min_from key best xs # zs"
        by (metis list.inject)+
      have "key (min_from key best xs) < key best" using l Cons b by simp
      then have "key (min_from key best xs) < key x" using False by simp
      then have "best # x # xs = (best # x # ys') @ min_from key best xs # zs
          \<and> (\<forall>y\<in>set (best # x # ys'). key (min_from key best xs) < key y)"
        using xs l Cons b by simp
      then show ?thesis using False by (metis min_from.simps(2))
    qed
  qed
qed

lemma min_from_lowest:
  fixes best :: nat
  assumes "sorted (best # xs)" and "j \<in> set (best # xs)"
    and "key j = key (min_from key best xs)"
  shows "min_from key best xs \<le> j"
proof -
  obtain ys zs where s: "best # xs = ys @ min_from key best xs # zs"
    and l: "\<forall>y\<in>set ys. key (min_from key best xs) < key y"
    using min_from_split [of best xs key] by blast
  have "j \<notin> set ys" using l assms(3) by auto
  then have "j \<in> set (min_from key best xs # zs)" using assms(2) s by auto
  moreover have "sorted (min_from key best xs # zs)" using assms(1) s by (simp add: sorted_append)
  ultimately show ?thesis by auto
qed

lemma mset_nn_loop:
  "mset (nn_loop g locs cur route unv) = mset route + mset unv"
proof (induction g locs cur route unv rule: nn_loop.induct)
  case (1 g locs cur route)
  then show ?case by simp
next
  case (2 g locs cur route u us)
  let ?m = "min_from (leg g locs cur) u us"
  have "?m \<in># mset (u # us)" using min_from_in_set [of "leg g locs cur" u us] by simp
  then have "{#?m#} + mset (remove1 ?m (u # us)) = mset (u # us)"
    by (simp del: remove1.simps mset.simps)
  moreover have "mset (nn_loop g locs cur route (u # us)) =
      mset route + ({#?m#} + mset (remove1 ?m (u # us)))"
    using 2 by (simp add: Let_def del: remove1.simps)
  ultimately show ?case by (simp only:)
qed

section \<open>The greedy walk\<close>

lemma nn_loop_prefix: "\<exists>ext. nn_loop g locs cur route unv = route @ ext"
proof (induction g locs cur route unv rule: nn_loop.induct)
  case (1 g locs cur route)
  then show ?case by simp
next
  case (2 g locs cur route u us)
  then show ?case by (auto simp: Let_def simp del: remove1.simps)
qed

lemma nn_loop_steps:
  assumes "sorted unv" and "distinct unv" and "route \<noteq> []" and "last route = cur"
    and "set route \<inter> set unv = {}"
  shows "\<forall>k. length route \<le> Suc k \<and> Suc k < length (nn_loop g locs cur route unv) \<longrightarrow>
      nn_loop g locs cur route unv ! Suc k \<in> set unv
      \<and> nn_loop g locs cur route unv ! Suc k \<notin> set (take (Suc k) (nn_loop g locs cur route unv))
      \<and> (\<forall>j\<in>set unv. j \<notin> set (take (Suc k) (nn_loop g locs cur route unv)) \<longrightarrow>
            leg g locs (nn_loop g locs cur route unv ! k) (nn_loop g locs cur route unv ! Suc k)
              \<le> leg g locs (nn_loop g locs cur route unv ! k) j
          \<and> (leg g locs (nn_loop g locs cur route unv ! k) j
               = leg g locs (nn_loop g locs cur route unv ! k) (nn_loop g locs cur route unv ! Suc k)
             \<longrightarrow> nn_loop g locs cur route unv ! Suc k \<le> j))"
  using assms
proof (induction g locs cur route unv rule: nn_loop.induct)
  case (1 g locs cur route)
  then show ?case by simp
next
  case (2 g locs cur route u us)
  let ?m = "min_from (leg g locs cur) u us"
  let ?unv' = "remove1 ?m (u # us)"
  let ?r = "nn_loop g locs ?m (route @ [?m]) ?unv'"
  have r: "nn_loop g locs cur route (u # us) = ?r"
    by (simp add: Let_def del: remove1.simps)
  have m_in: "?m \<in> set (u # us)" by (rule min_from_in_set)
  have set': "set ?unv' = set (u # us) - {?m}"
    using "2.prems"(2) by (rule set_remove1_eq)
  have p1: "sorted ?unv'" using "2.prems"(1) by (rule sorted_remove1)
  have p2: "distinct ?unv'" using "2.prems"(2) by (rule distinct_remove1)
  have p5: "set (route @ [?m]) \<inter> set ?unv' = {}"
    using "2.prems"(5) set' by auto
  note ih = "2.IH" [OF refl p1 p2 _ _ p5, simplified]
  obtain ext where ext: "?r = (route @ [?m]) @ ext" using nn_loop_prefix by blast
  have len: "length route < length ?r" using ext by simp
  have at_k: "?r ! (length route - 1) = cur"
    using ext "2.prems"(3,4) by (simp add: nth_append last_conv_nth)
  have at_Sk: "?r ! length route = ?m" using ext by (simp add: nth_append)
  have tk: "take (length route) ?r = route" using ext by simp
  show ?case
  proof (intro allI impI)
    fix k
    assume k: "length route \<le> Suc k \<and> Suc k < length (nn_loop g locs cur route (u # us))"
    show "nn_loop g locs cur route (u # us) ! Suc k \<in> set (u # us)
      \<and> nn_loop g locs cur route (u # us) ! Suc k \<notin> set (take (Suc k) (nn_loop g locs cur route (u # us)))
      \<and> (\<forall>j\<in>set (u # us). j \<notin> set (take (Suc k) (nn_loop g locs cur route (u # us))) \<longrightarrow>
            leg g locs (nn_loop g locs cur route (u # us) ! k) (nn_loop g locs cur route (u # us) ! Suc k)
              \<le> leg g locs (nn_loop g locs cur route (u # us) ! k) j
          \<and> (leg g locs (nn_loop g locs cur route (u # us) ! k) j
               = leg g locs (nn_loop g locs cur route (u # us) ! k) (nn_loop g locs cur route (u # us) ! Suc k)
             \<longrightarrow> nn_loop g locs cur route (u # us) ! Suc k \<le> j))"
      unfolding r
    proof (cases "Suc k = length route")
      case True
      then have k': "k = length route - 1" by simp
      have Sk: "?r ! Suc k = ?m" using at_Sk True by simp
      have rk: "?r ! k = cur" using at_k k' by simp
      have tk': "take (Suc k) ?r = route" using tk True by simp
      have a: "?m \<notin> set route" using "2.prems"(5) m_in by auto
      have b: "\<forall>j\<in>set (u # us). leg g locs cur ?m \<le> leg g locs cur j"
        by (rule min_from_le)
      have c: "\<forall>j\<in>set (u # us). leg g locs cur j = leg g locs cur ?m \<longrightarrow> ?m \<le> j"
        using min_from_lowest [OF "2.prems"(1)] by blast
      show "?r ! Suc k \<in> set (u # us) \<and> ?r ! Suc k \<notin> set (take (Suc k) ?r)
        \<and> (\<forall>j\<in>set (u # us). j \<notin> set (take (Suc k) ?r) \<longrightarrow>
            leg g locs (?r ! k) (?r ! Suc k) \<le> leg g locs (?r ! k) j
          \<and> (leg g locs (?r ! k) j = leg g locs (?r ! k) (?r ! Suc k) \<longrightarrow> ?r ! Suc k \<le> j))"
        unfolding Sk rk tk' using m_in a b c by blast
    next
      case False
      then have k1: "Suc (length route) \<le> Suc k" and k2: "Suc k < length ?r" using k r by auto
      have sub: "set (route @ [?m]) \<subseteq> set (take (Suc k) ?r)"
      proof -
        have "take (Suc k) ?r = (route @ [?m]) @ take (Suc k - length (route @ [?m])) ext"
          using ext k1 by (metis (no_types, lifting) length_append_singleton take_all_iff take_append) 
        then show ?thesis by (metis set_append Un_upper1)
      qed
      have ih': "?r ! Suc k \<in> set ?unv' \<and> ?r ! Suc k \<notin> set (take (Suc k) ?r)
        \<and> (\<forall>j\<in>set ?unv'. j \<notin> set (take (Suc k) ?r) \<longrightarrow>
            leg g locs (?r ! k) (?r ! Suc k) \<le> leg g locs (?r ! k) j
          \<and> (leg g locs (?r ! k) j = leg g locs (?r ! k) (?r ! Suc k) \<longrightarrow> ?r ! Suc k \<le> j))"
        using ih k1 k2 by simp
      have "\<forall>j\<in>set (u # us). j \<notin> set (take (Suc k) ?r) \<longrightarrow> j \<in> set ?unv'"
        using sub set' by auto
      then show "?r ! Suc k \<in> set (u # us) \<and> ?r ! Suc k \<notin> set (take (Suc k) ?r)
        \<and> (\<forall>j\<in>set (u # us). j \<notin> set (take (Suc k) ?r) \<longrightarrow>
            leg g locs (?r ! k) (?r ! Suc k) \<le> leg g locs (?r ! k) j
          \<and> (leg g locs (?r ! k) j = leg g locs (?r ! k) (?r ! Suc k) \<longrightarrow> ?r ! Suc k \<le> j))"
        using ih' set' by blast
    qed
  qed
qed

lemma start_index_in_range: "0 < n \<Longrightarrow> min_from key 0 [Suc 0..<n] < n"
  using min_from_in_set [of key 0 "[Suc 0..<n]"] by auto

lemma upt_from_zero: "0 < n \<Longrightarrow> 0 # [1..<n] = [0..<n]"
  by (simp add: upt_conv_Cons)

lemma nearest_neighbor_route_unfold:
  "2 \<le> length locs \<Longrightarrow> nearest_neighbor_route g locs start =
     nn_loop g locs (start_index g locs start) [start_index g locs start]
       (remove1 (start_index g locs start) [0..<length locs])"
  by (auto simp: nearest_neighbor_route_def start_index_def Let_def)

lemma start_index_lt: "0 < length locs \<Longrightarrow> start_index g locs start < length locs"
  by (auto simp: start_index_def start_index_in_range split: option.splits)

lemma mset_nearest_neighbor_route:
  "mset (nearest_neighbor_route g locs start) = mset [0..<length locs]"
proof -
  consider "locs = []" | "length locs = 1" | "2 \<le> length locs"
    by (cases locs) (auto simp: Suc_le_eq)
  then show ?thesis
  proof cases
    case 1
    then show ?thesis by (simp add: nearest_neighbor_route_def)
  next
    case 2
    then have "locs \<noteq> []" by auto
    then show ?thesis using 2 by (simp add: nearest_neighbor_route_def)
  next
    case 3
    let ?c = "start_index g locs start"
    have "0 < length locs" using 3 by auto
    then have "?c < length locs" by (rule start_index_lt)
    then have "?c \<in># mset [0..<length locs]" by simp
    then have "{#?c#} + mset (remove1 ?c [0..<length locs]) = mset [0..<length locs]"
      by simp
    then show ?thesis
      using 3 by (simp add: nearest_neighbor_route_unfold mset_nn_loop)
  qed
qed

text \<open>
  Claim C1. For every list of coordinate pairs, \<open>nearest_neighbor_route\<close> returns a
  permutation of the input indices \<open>0..n-1\<close>: the same multiset as \<open>[0..<n]\<close>, hence no
  duplicate, no omission and exactly the length of the input, so no location is visited
  twice and the path does not come back to its start. For the empty list it returns the
  empty list, and for a one-element list it returns \<open>[0]\<close>.
\<close>

theorem nearest_neighbor_route_permutation:
  "mset (nearest_neighbor_route g locs start) = mset [0..<length locs]
   \<and> distinct (nearest_neighbor_route g locs start)
   \<and> set (nearest_neighbor_route g locs start) = {0..<length locs}
   \<and> length (nearest_neighbor_route g locs start) = length locs
   \<and> nearest_neighbor_route g [] start = []
   \<and> nearest_neighbor_route g [x] start = [0]"
proof -
  have m: "mset (nearest_neighbor_route g locs start) = mset [0..<length locs]"
    by (rule mset_nearest_neighbor_route)
  have d: "distinct (nearest_neighbor_route g locs start)"
    using m by (metis distinct_upt mset_eq_imp_distinct_iff)
  have s: "set (nearest_neighbor_route g locs start) = {0..<length locs}"
    using m by (metis mset_eq_setD set_upt)
  have l: "length (nearest_neighbor_route g locs start) = length locs"
    using m by (metis mset_eq_length length_upt diff_zero)
  show ?thesis using m d s l by (simp add: nearest_neighbor_route_def)
qed

text \<open>
  Claim C2. \<open>nearest_neighbor_route\<close> follows the greedy walk. Its first element is
  index 0 when no start is given; with a start it is an index whose location is at
  minimum distance from the start, the lowest such index. Every later element
  \<open>r ! Suc k\<close> is an index not among the first \<open>Suc k\<close> elements, at minimum distance
  from the location of \<open>r ! k\<close> among all indices not yet visited, and the lowest index
  among those at that distance. The walk ends when all locations are visited: the route
  has the length of the input.
\<close>

theorem nearest_neighbor_route_greedy:
  "(locs \<noteq> [] \<longrightarrow>
      (case start of
         None \<Rightarrow> nearest_neighbor_route g locs start ! 0 = 0
       | Some s \<Rightarrow>
           nearest_neighbor_route g locs start ! 0 < length locs
           \<and> (\<forall>j<length locs.
                 calculate_distance g (fst s) (snd s)
                     (fst (locs ! (nearest_neighbor_route g locs start ! 0)))
                     (snd (locs ! (nearest_neighbor_route g locs start ! 0)))
                   \<le> calculate_distance g (fst s) (snd s) (fst (locs ! j)) (snd (locs ! j))
               \<and> (calculate_distance g (fst s) (snd s) (fst (locs ! j)) (snd (locs ! j))
                     = calculate_distance g (fst s) (snd s)
                         (fst (locs ! (nearest_neighbor_route g locs start ! 0)))
                         (snd (locs ! (nearest_neighbor_route g locs start ! 0)))
                   \<longrightarrow> nearest_neighbor_route g locs start ! 0 \<le> j))))
   \<and> (\<forall>k. Suc k < length (nearest_neighbor_route g locs start) \<longrightarrow>
         nearest_neighbor_route g locs start ! Suc k < length locs
         \<and> nearest_neighbor_route g locs start ! Suc k
              \<notin> set (take (Suc k) (nearest_neighbor_route g locs start))
         \<and> (\<forall>j<length locs. j \<notin> set (take (Suc k) (nearest_neighbor_route g locs start)) \<longrightarrow>
               leg g locs (nearest_neighbor_route g locs start ! k)
                   (nearest_neighbor_route g locs start ! Suc k)
                 \<le> leg g locs (nearest_neighbor_route g locs start ! k) j
             \<and> (leg g locs (nearest_neighbor_route g locs start ! k) j
                   = leg g locs (nearest_neighbor_route g locs start ! k)
                       (nearest_neighbor_route g locs start ! Suc k)
                 \<longrightarrow> nearest_neighbor_route g locs start ! Suc k \<le> j)))
   \<and> length (nearest_neighbor_route g locs start) = length locs"
  (is "?first \<and> ?steps \<and> ?len")
proof (intro conjI)
  let ?r = "nearest_neighbor_route g locs start"
  let ?c = "start_index g locs start"
  let ?n = "length locs"
  have len: "length ?r = ?n"
    using mset_nearest_neighbor_route [of g locs start] by (metis mset_eq_length length_upt diff_zero)
  show ?len by (rule len)
  have r0: "locs \<noteq> [] \<Longrightarrow> ?r ! 0 = ?c"
  proof -
    assume ne: "locs \<noteq> []"
    consider "length locs = 1" | "2 \<le> length locs"
      using ne by (cases locs) (auto simp: Suc_le_eq)
    then show "?r ! 0 = ?c"
    proof cases
      case 1
      then show ?thesis using ne
        by (cases start) (simp_all add: nearest_neighbor_route_def start_index_def)
    next
      case 2
      obtain ext where "?r = [?c] @ ext"
        using nn_loop_prefix [of g locs ?c "[?c]"] nearest_neighbor_route_unfold [OF 2] by metis
      then show ?thesis by simp
    qed
  qed
  show ?first
  proof (intro impI)
    assume ne: "locs \<noteq> []"
    show "case start of
         None \<Rightarrow> ?r ! 0 = 0
       | Some s \<Rightarrow>
           ?r ! 0 < length locs
           \<and> (\<forall>j<length locs.
                 calculate_distance g (fst s) (snd s) (fst (locs ! (?r ! 0))) (snd (locs ! (?r ! 0)))
                   \<le> calculate_distance g (fst s) (snd s) (fst (locs ! j)) (snd (locs ! j))
               \<and> (calculate_distance g (fst s) (snd s) (fst (locs ! j)) (snd (locs ! j))
                     = calculate_distance g (fst s) (snd s) (fst (locs ! (?r ! 0))) (snd (locs ! (?r ! 0)))
                   \<longrightarrow> ?r ! 0 \<le> j))"
    proof (cases start)
      case None
      then show ?thesis using r0 [OF ne] by (simp add: start_index_def)
    next
      case (Some s)
      let ?key = "\<lambda>i. calculate_distance g (fst s) (snd s) (fst (locs ! i)) (snd (locs ! i))"
      have c: "?c = min_from ?key 0 [1..<?n]" using Some by (simp add: start_index_def)
      have pos: "0 < ?n" using ne by simp
      have srt: "sorted (0 # [1..<?n])" by (simp add: upt_from_zero [OF pos])
      have a: "?c < ?n" using start_index_lt [OF pos] .
      have b: "\<forall>j\<in>set (0 # [1..<?n]). ?key ?c \<le> ?key j"
        unfolding c by (rule min_from_le)
      have d: "\<forall>j\<in>set (0 # [1..<?n]). ?key j = ?key ?c \<longrightarrow> ?c \<le> j"
        unfolding c using min_from_lowest [OF srt, of _ ?key] by blast
      have mem: "\<And>j. j < ?n \<Longrightarrow> j \<in> set (0 # [1..<?n])"
        unfolding upt_from_zero [OF pos] by simp
      have e: "\<forall>j<?n. ?key ?c \<le> ?key j \<and> (?key j = ?key ?c \<longrightarrow> ?c \<le> j)"
      proof (intro allI impI)
        fix j assume "j < ?n"
        then have jm: "j \<in> set (0 # [1..<?n])" by (rule mem)
        have 1: "?key ?c \<le> ?key j" by (rule bspec [OF b jm])
        have 2: "?key j = ?key ?c \<longrightarrow> ?c \<le> j" by (rule bspec [OF d jm])
        show "?key ?c \<le> ?key j \<and> (?key j = ?key ?c \<longrightarrow> ?c \<le> j)"
          using 1 2 by (rule conjI)
      qed
      have G: "?r ! 0 < ?n \<and> (\<forall>j<?n. ?key (?r ! 0) \<le> ?key j \<and> (?key j = ?key (?r ! 0) \<longrightarrow> ?r ! 0 \<le> j))"
        unfolding r0 [OF ne] using a e by (rule conjI)
      show ?thesis unfolding Some option.case by (rule G [unfolded Some])
    qed
  qed
  show ?steps
  proof (cases "2 \<le> length locs")
    case False
    then have "length ?r < 2" using len by simp
    then show ?thesis by simp
  next
    case True
    have u: "?r = nn_loop g locs ?c [?c] (remove1 ?c [0..<?n])"
      by (rule nearest_neighbor_route_unfold [OF True])
    have "0 < ?n" using True by auto
    then have c_lt: "?c < ?n" by (rule start_index_lt)
    have set': "set (remove1 ?c [0..<?n]) = {0..<?n} - {?c}"
      by (simp add: set_remove1_eq)
    note st = nn_loop_steps [of "remove1 ?c [0..<?n]" "[?c]" ?c g locs, folded u]
    have steps: "\<forall>k. length [?c] \<le> Suc k \<and> Suc k < length ?r \<longrightarrow>
      ?r ! Suc k \<in> set (remove1 ?c [0..<?n])
      \<and> ?r ! Suc k \<notin> set (take (Suc k) ?r)
      \<and> (\<forall>j\<in>set (remove1 ?c [0..<?n]). j \<notin> set (take (Suc k) ?r) \<longrightarrow>
            leg g locs (?r ! k) (?r ! Suc k) \<le> leg g locs (?r ! k) j
          \<and> (leg g locs (?r ! k) j = leg g locs (?r ! k) (?r ! Suc k) \<longrightarrow> ?r ! Suc k \<le> j))"
      by (rule st) (simp_all add: sorted_remove1 set')
    have ne: "locs \<noteq> []" using True by auto
    show ?thesis
    proof (intro allI impI)
      fix k assume k: "Suc k < length ?r"
      have "0 < length (take (Suc k) ?r)" using k by simp
      then have "take (Suc k) ?r ! 0 \<in> set (take (Suc k) ?r)" by (rule nth_mem)
      then have c_in: "?c \<in> set (take (Suc k) ?r)"
        using r0 [OF ne] by simp
      have j_in: "\<And>j. j < ?n \<Longrightarrow> j \<notin> set (take (Suc k) ?r) \<Longrightarrow> j \<in> set (remove1 ?c [0..<?n])"
        using c_in set' by auto
      have "length [?c] \<le> Suc k \<and> Suc k < length ?r" using k by simp
      with steps have S: "?r ! Suc k \<in> set (remove1 ?c [0..<?n])
        \<and> ?r ! Suc k \<notin> set (take (Suc k) ?r)
        \<and> (\<forall>j\<in>set (remove1 ?c [0..<?n]). j \<notin> set (take (Suc k) ?r) \<longrightarrow>
            leg g locs (?r ! k) (?r ! Suc k) \<le> leg g locs (?r ! k) j
          \<and> (leg g locs (?r ! k) j = leg g locs (?r ! k) (?r ! Suc k) \<longrightarrow> ?r ! Suc k \<le> j))"
        by blast
      then have lt: "?r ! Suc k < ?n" using set' by simp
      show "?r ! Suc k < length locs
         \<and> ?r ! Suc k \<notin> set (take (Suc k) ?r)
         \<and> (\<forall>j<length locs. j \<notin> set (take (Suc k) ?r) \<longrightarrow>
               leg g locs (?r ! k) (?r ! Suc k) \<le> leg g locs (?r ! k) j
             \<and> (leg g locs (?r ! k) j = leg g locs (?r ! k) (?r ! Suc k) \<longrightarrow> ?r ! Suc k \<le> j))"
        using S lt j_in by blast
    qed
  qed
qed


lemma upt3: "[0..<3] = [0, 1, 2]" "[1..<3] = [1, 2]"
  by (simp_all add: upt_rec)

lemma route_tie_example:
  "nearest_neighbor_route flat_km [(0, 1), (0, 0), (0, 2)] None = [0, 1, 2]"
  by (simp add: nearest_neighbor_route_def Let_def upt3 leg_def calculate_distance_def flat_km_def)

lemma route_start_example:
  "nearest_neighbor_route flat_km [(0, 1), (0, 5), (0, 3)] (Some (0, 6)) = [1, 2, 0]"
  by (simp add: nearest_neighbor_route_def Let_def upt3 leg_def calculate_distance_def flat_km_def)

theorem nearest_neighbor_route_greedy_witness:
  "[(0, 1), (0, 0), (0, 2)] \<noteq> ([] :: (real \<times> real) list)
   \<and> nearest_neighbor_route flat_km [(0, 1), (0, 0), (0, 2)] None ! 0 = 0
   \<and> Suc 0 < length (nearest_neighbor_route flat_km [(0, 1), (0, 0), (0, 2)] None)
   \<and> 2 < length [(0, 1), (0, 0), (0, 2 :: real) :: real \<times> real]
   \<and> 2 \<notin> set (take (Suc 0) (nearest_neighbor_route flat_km [(0, 1), (0, 0), (0, 2)] None))
   \<and> leg flat_km [(0, 1), (0, 0), (0, 2)] 0 2 = leg flat_km [(0, 1), (0, 0), (0, 2)] 0 1
   \<and> nearest_neighbor_route flat_km [(0, 1), (0, 0), (0, 2)] None ! Suc 0 = 1
   \<and> length (nearest_neighbor_route flat_km [(0, 1), (0, 0), (0, 2)] None) = 3"
  using nearest_neighbor_route_greedy
    [where g = flat_km and locs = "[(0, 1), (0, 0), (0, 2)]" and start = None]
  by (simp add: route_tie_example leg_def calculate_distance_def flat_km_def)

section \<open>Travel time\<close>

lemma py_round_close: "\<bar>of_int (py_round x) - x\<bar> \<le> 1 / 2"
proof -
  have "of_int \<lfloor>x\<rfloor> \<le> x" and "x < of_int \<lfloor>x\<rfloor> + 1" by linarith+
  then show ?thesis by (auto simp: py_round_def Let_def)
qed

lemma py_round_of_int: "py_round (of_int k) = k"
  by (simp add: py_round_def)

lemma round_ndigits_close: "\<bar>round_ndigits x n - x\<bar> \<le> 1 / (2 * 10 ^ n)"
proof -
  have "\<bar>of_int (py_round (x * 10 ^ n)) - x * 10 ^ n\<bar> \<le> 1 / 2" by (rule py_round_close)
  then have "\<bar>of_int (py_round (x * 10 ^ n)) - x * 10 ^ n\<bar> / 10 ^ n \<le> (1 / 2) / 10 ^ n"
    by (rule divide_right_mono) simp
  moreover have "\<bar>of_int (py_round (x * 10 ^ n)) - x * 10 ^ n\<bar> / 10 ^ n
      = \<bar>round_ndigits x n - x\<bar>"
  proof -
    have "(of_int (py_round (x * 10 ^ n)) - x * 10 ^ n) / 10 ^ n = round_ndigits x n - x"
      by (simp add: round_ndigits_def diff_divide_distrib)
    then have "\<bar>(of_int (py_round (x * 10 ^ n)) - x * 10 ^ n) / 10 ^ n\<bar>
        = \<bar>round_ndigits x n - x\<bar>"
      by (simp only:)
    then show ?thesis by simp
  qed
  ultimately show ?thesis by simp
qed






section \<open>Proximity clusters\<close>

lemma cluster_scan_filter:
  "cluster_scan g h c m cluster unassigned i =
     (cluster @ filter (\<lambda>r. calculate_distance g (fst c) (snd c)
                  (dict_get (h r) ''latitude'' (Num 0)) (dict_get (h r) ''longitude'' (Num 0)) \<le> m)
                (drop i unassigned),
      take i unassigned @ filter (\<lambda>r. \<not> calculate_distance g (fst c) (snd c)
                  (dict_get (h r) ''latitude'' (Num 0)) (dict_get (h r) ''longitude'' (Num 0)) \<le> m)
                (drop i unassigned))"
proof (induction g h c m cluster unassigned i rule: cluster_scan.induct)
  case (1 g h c m cluster unassigned i)
  let ?W = "\<lambda>r. calculate_distance g (fst c) (snd c)
                  (dict_get (h r) ''latitude'' (Num 0)) (dict_get (h r) ''longitude'' (Num 0)) \<le> m"
  show ?case
  proof (cases "i < length unassigned")
    case False
    then show ?thesis by (subst cluster_scan.simps) simp
  next
    case True
    have dr: "drop i unassigned = unassigned ! i # drop (Suc i) unassigned"
      using True by (simp add: Cons_nth_drop_Suc)
    show ?thesis
    proof (cases "?W (unassigned ! i)")
      case near: True
      have d': "drop i (pop_at unassigned i) = drop (Suc i) unassigned"
        using True by (simp add: pop_at_def)
      have t': "take i (pop_at unassigned i) = take i unassigned"
        using True by (simp add: pop_at_def)
      have "cluster_scan g h c m cluster unassigned i =
          cluster_scan g h c m (cluster @ [unassigned ! i]) (pop_at unassigned i) i"
        using True near by (subst cluster_scan.simps) (simp add: Let_def)
      also have "\<dots> = ((cluster @ [unassigned ! i]) @ filter ?W (drop i (pop_at unassigned i)),
          take i (pop_at unassigned i) @ filter (\<lambda>r. \<not> ?W r) (drop i (pop_at unassigned i)))"
        using "1.IH"(1) [OF True refl refl near] .
      finally show ?thesis unfolding d' t' using near by (simp add: dr)
    next
      case far: False
      have "cluster_scan g h c m cluster unassigned i =
          cluster_scan g h c m cluster unassigned (i + 1)"
        using True far by (subst cluster_scan.simps) (simp add: Let_def)
      also have "\<dots> = (cluster @ filter ?W (drop (i + 1) unassigned),
          take (i + 1) unassigned @ filter (\<lambda>r. \<not> ?W r) (drop (i + 1) unassigned))"
        using "1.IH"(2) [OF True refl refl far] .
      finally show ?thesis using far True by (simp add: dr take_Suc_conv_app_nth)
    qed
  qed
qed

lemma cluster_loop_step:
  "cluster_loop g h m clusters (u # us) =
     cluster_loop g h m (clusters @ [u # filter (\<lambda>r. venue_distance g h u r \<le> m) us])
       (filter (\<lambda>r. \<not> venue_distance g h u r \<le> m) us)"
  by (simp add: Let_def cluster_scan_filter venue_distance_def)

lemma mset_cluster_loop:
  "mset (concat (cluster_loop g h m clusters unassigned)) = mset (concat clusters) + mset unassigned"
proof (induction "length unassigned" arbitrary: clusters unassigned rule: less_induct)
  case less
  show ?case
  proof (cases unassigned)
    case Nil
    then show ?thesis by simp
  next
    case (Cons u us)
    let ?near = "filter (\<lambda>r. venue_distance g h u r \<le> m) us"
    let ?far = "filter (\<lambda>r. \<not> venue_distance g h u r \<le> m) us"
    have "length ?far < length unassigned" using Cons by (simp add: less_Suc_eq_le)
    then have "mset (concat (cluster_loop g h m (clusters @ [u # ?near]) ?far))
        = mset (concat (clusters @ [u # ?near])) + mset ?far"
      by (rule less)
    moreover have "mset ?near + mset ?far = mset us" by simp
    ultimately show ?thesis unfolding Cons cluster_loop_step
      by (simp add: ac_simps) 
  qed
qed

lemma cluster_loop_invariant:
  assumes "\<forall>c\<in>set clusters. c \<noteq> [] \<and> (\<forall>v\<in>set (tl c). venue_distance g h (hd c) v \<le> m)"
  shows "\<forall>c\<in>set (cluster_loop g h m clusters unassigned).
           c \<noteq> [] \<and> (\<forall>v\<in>set (tl c). venue_distance g h (hd c) v \<le> m)"
  using assms
proof (induction "length unassigned" arbitrary: clusters unassigned rule: less_induct)
  case less
  show ?case
  proof (cases unassigned)
    case Nil
    then show ?thesis using less.prems by simp
  next
    case (Cons u us)
    let ?near = "filter (\<lambda>r. venue_distance g h u r \<le> m) us"
    let ?far = "filter (\<lambda>r. \<not> venue_distance g h u r \<le> m) us"
    have l: "length ?far < length unassigned" using Cons by (simp add: less_Suc_eq_le)
    have p: "\<forall>c\<in>set (clusters @ [u # ?near]).
        c \<noteq> [] \<and> (\<forall>v\<in>set (tl c). venue_distance g h (hd c) v \<le> m)"
      using less.prems by auto
    show ?thesis unfolding Cons cluster_loop_step by (rule less.hyps [OF l p])
  qed
qed

text \<open>
  Claim C4, as amended. For every venue list and every threshold, the clusters returned
  by \<open>cluster_by_proximity\<close> partition the input: concatenated they have the multiset
  of the input, so every venue is in exactly one cluster; every cluster is non-empty;
  and every member after the seed (the head of the cluster) lies within the threshold
  of the seed, whose coordinates are the only anchor of the comparison. The seed itself
  enters its cluster without a distance test.
\<close>

theorem cluster_by_proximity_partition:
  "mset (concat (cluster_by_proximity g h locations m)) = mset locations
   \<and> (\<forall>c\<in>set (cluster_by_proximity g h locations m).
         c \<noteq> [] \<and> (\<forall>v\<in>set (tl c). venue_distance g h (hd c) v \<le> m))"
proof -
  have "\<forall>c\<in>set (cluster_loop g h m [] locations).
         c \<noteq> [] \<and> (\<forall>v\<in>set (tl c). venue_distance g h (hd c) v \<le> m)"
    by (rule cluster_loop_invariant) simp
  then show ?thesis
    by (simp add: cluster_by_proximity_def mset_cluster_loop)
qed

lemma line_heap_distance:
  "a < length lons \<Longrightarrow> b < length lons \<Longrightarrow>
   venue_distance flat_km_val (line_heap lons) a b = \<bar>lons ! a - lons ! b\<bar>"
  by (simp add: venue_distance_def calculate_distance_def flat_km_val_def flat_km_def
      line_heap_def dict_get_def)

lemma cluster_example:
  "cluster_by_proximity flat_km_val (line_heap [0, 10, 1]) [0, 1, 2] 5 = [[0, 2], [1]]"
  by (simp add: cluster_by_proximity_def cluster_loop_step line_heap_distance
      del: cluster_loop.simps(2))

theorem cluster_by_proximity_partition_witness:
  "[0, 2] \<in> set (cluster_by_proximity flat_km_val (line_heap [0, 10, 1]) [0, 1, 2] 5)
   \<and> 2 \<in> set (tl [0, 2 :: nat])
   \<and> venue_distance flat_km_val (line_heap [0, 10, 1]) (hd [0, 2]) 2 \<le> 5
   \<and> mset (concat (cluster_by_proximity flat_km_val (line_heap [0, 10, 1]) [0, 1, 2] 5))
       = mset [0, 1, 2]"
  using cluster_by_proximity_partition
    [where g = flat_km_val and h = "line_heap [0, 10, 1]" and locations = "[0, 1, 2]" and m = 5]
  unfolding cluster_example by (simp add: line_heap_distance)

text \<open>
  The claim as first stated also puts the seed within the threshold of itself. With the
  threshold \<open>-1\<close> a single venue forms the cluster \<open>[[0]]\<close>, and its distance 0 to
  itself is not within \<open>-1\<close>.
\<close>

theorem cluster_seed_outside_counterexample:
  "cluster_by_proximity flat_km_val (line_heap [1]) [0] (- 1) = [[0]]
   \<and> \<not> (\<forall>c\<in>set (cluster_by_proximity flat_km_val (line_heap [1]) [0] (- 1)).
          \<forall>v\<in>set c. venue_distance flat_km_val (line_heap [1]) (hd c) v \<le> - 1)"
  by (simp add: cluster_by_proximity_def cluster_loop_step line_heap_distance
      del: cluster_loop.simps(2))

section \<open>Route distances\<close>

lemma set_field_other_key:
  "k \<noteq> k' \<Longrightarrow> set_field h r k v r' k' = h r' k'"
  by (simp add: set_field_def)

lemma set_field_other_ref:
  "r' \<noteq> r \<Longrightarrow> set_field h r k v r' = h r'"
  by (simp add: set_field_def)

lemma set_field_same: "set_field h r k v r k = Some v"
  by (simp add: set_field_def)

lemma distance_loop_unfold_step:
  "i < length optimized - 1 \<Longrightarrow>
   distance_loop fadd g optimized i h tot =
     distance_loop fadd g optimized (i + 1)
       (set_field h (optimized ! i) ''distance_to_next''
          (Num (round_ndigits (venue_distance g h (optimized ! i) (optimized ! (i + 1))) 2)))
       (fadd tot (venue_distance g h (optimized ! i) (optimized ! (i + 1))))"
  by (subst distance_loop.simps) (simp add: Let_def venue_distance_def)

lemma distance_loop_unfold_done:
  "\<not> i < length optimized - 1 \<Longrightarrow> distance_loop fadd g optimized i h tot = (h, tot)"
  by (subst distance_loop.simps) simp

lemma venue_distance_set_field:
  "venue_distance g (set_field h r ''distance_to_next'' v) a b = venue_distance g h a b"
  by (simp add: venue_distance_def dict_get_def set_field_other_key)

text \<open>Frame of the loop: only the field distance_to_next of listed venues changes.\<close>

lemma distance_loop_frame:
  "k \<noteq> ''distance_to_next'' \<Longrightarrow> fst (distance_loop fadd g optimized i h tot) r k = h r k"
proof (induction fadd g optimized i h tot rule: distance_loop.induct)
  case (1 fadd g optimized i h tot)
  show ?case
  proof (cases "i < length optimized - 1")
    case False
    then show ?thesis by (simp add: distance_loop_unfold_done)
  next
    case True
    show ?thesis
      unfolding distance_loop_unfold_step [OF True]
      using "1.IH" [OF True refl refl refl] "1.prems"
      by (simp add: venue_distance_def set_field_other_key)
  qed
qed


lemma distance_loop_untouched:
  "(\<forall>j. i \<le> j \<and> j < length optimized - 1 \<longrightarrow> optimized ! j \<noteq> r) \<Longrightarrow>
   fst (distance_loop fadd g optimized i h tot) r = h r"
proof (induction fadd g optimized i h tot rule: distance_loop.induct)
  case (1 fadd g optimized i h tot)
  show ?case
  proof (cases "i < length optimized - 1")
    case False
    then show ?thesis by (simp add: distance_loop_unfold_done)
  next
    case True
    have ne: "optimized ! i \<noteq> r" using "1.prems" True by simp
    have later: "\<forall>j. i + 1 \<le> j \<and> j < length optimized - 1 \<longrightarrow> optimized ! j \<noteq> r"
      using "1.prems" by simp
    show ?thesis
      unfolding distance_loop_unfold_step [OF True]
      using "1.IH" [OF True refl refl refl later] ne
      by (simp add: venue_distance_def set_field_other_ref)
  qed
qed

lemma distance_loop_total:
  "snd (distance_loop fadd g optimized i h tot) =
     foldl fadd tot
       (map (\<lambda>j. venue_distance g h (optimized ! j) (optimized ! (j + 1)))
          [i..<length optimized - 1])"
proof (induction fadd g optimized i h tot rule: distance_loop.induct)
  case (1 fadd g optimized i h tot)
  show ?case
  proof (cases "i < length optimized - 1")
    case False
    then show ?thesis by (simp add: distance_loop_unfold_done)
  next
    case True
    have "snd (distance_loop fadd g optimized i h tot) =
        foldl fadd (fadd tot (venue_distance g h (optimized ! i) (optimized ! (i + 1))))
          (map (\<lambda>j. venue_distance g h (optimized ! j) (optimized ! (j + 1)))
             [i + 1..<length optimized - 1])"
      unfolding distance_loop_unfold_step [OF True]
      using "1.IH" [OF True refl refl refl]
      by (simp add: venue_distance_def [symmetric] venue_distance_set_field)
    moreover have "[i..<length optimized - 1] = i # [i + 1..<length optimized - 1]"
      using True by (simp add: upt_conv_Cons)
    ultimately show ?thesis by simp
  qed
qed

lemma distance_loop_written:
  "distinct optimized \<Longrightarrow> i \<le> j \<Longrightarrow> j < length optimized - 1 \<Longrightarrow>
   fst (distance_loop fadd g optimized i h tot) (optimized ! j) ''distance_to_next'' =
     Some (Num (round_ndigits (venue_distance g h (optimized ! j) (optimized ! (j + 1))) 2))"
proof (induction fadd g optimized i h tot rule: distance_loop.induct)
  case (1 fadd g optimized i h tot)
  have True: "i < length optimized - 1" using "1.prems" by simp
  let ?v = "Num (round_ndigits (venue_distance g h (optimized ! i) (optimized ! (i + 1))) 2)"
  let ?h' = "set_field h (optimized ! i) ''distance_to_next'' ?v"
  let ?t' = "fadd tot (venue_distance g h (optimized ! i) (optimized ! (i + 1)))"
  have step: "distance_loop fadd g optimized i h tot = distance_loop fadd g optimized (i + 1) ?h' ?t'"
    by (rule distance_loop_unfold_step [OF True])
  show ?case
  proof (cases "j = i")
    case True
    have "\<forall>j'. i + 1 \<le> j' \<and> j' < length optimized - 1 \<longrightarrow> optimized ! j' \<noteq> optimized ! i"
      using "1.prems"(1) by (auto simp: nth_eq_iff_index_eq)
    then have "fst (distance_loop fadd g optimized (i + 1) ?h' ?t') (optimized ! i) = ?h' (optimized ! i)"
      by (rule distance_loop_untouched)
    then show ?thesis unfolding step True by (simp add: set_field_same)
  next
    case False
    then have le: "i + 1 \<le> j" using "1.prems"(2) by simp
    have "fst (distance_loop fadd g optimized (i + 1) ?h' ?t') (optimized ! j) ''distance_to_next'' =
        Some (Num (round_ndigits (venue_distance g ?h' (optimized ! j) (optimized ! (j + 1))) 2))"
      using "1.IH" [OF \<open>i < length optimized - 1\<close> refl refl refl "1.prems"(1) le "1.prems"(3)]
      by (simp add: venue_distance_def)
    then show ?thesis unfolding step by (simp add: venue_distance_set_field)
  qed
qed

lemma mset_map_nth_permutation:
  "mset r = mset [0..<length xs] \<Longrightarrow> mset (map (\<lambda>i. xs ! i) r) = mset xs"
proof -
  assume "mset r = mset [0..<length xs]"
  then have "mset (map (\<lambda>i. xs ! i) r) = mset (map (\<lambda>i. xs ! i) [0..<length xs])"
    by (metis mset_map)
  then show ?thesis by (simp add: map_nth)
qed

lemma mset_optimized_refs: "mset (optimized_refs g h locations start) = mset locations"
  unfolding optimized_refs_def
  by (rule mset_map_nth_permutation) (simp add: mset_nearest_neighbor_route)

lemma optimize_route_unfold:
  "locations \<noteq> [] \<Longrightarrow>
   optimize_route fadd g h locations start =
     (set_field (fst (distance_loop fadd g (optimized_refs g h locations start) 0 h 0))
        (last (optimized_refs g h locations start)) ''distance_to_next'' (Num 0),
      WithTotal (optimized_refs g h locations start)
        (snd (distance_loop fadd g (optimized_refs g h locations start) 0 h 0)))"
proof -
  assume ne: "locations \<noteq> []"
  have "length (optimized_refs g h locations start) = length locations"
    using mset_optimized_refs [of g h locations start] by (rule mset_eq_length)
  then have "0 < length (optimized_refs g h locations start)" using ne by simp
  then show ?thesis using ne
    by (simp add: optimize_route_def Let_def optimized_refs_def coords_of_def)
qed



lemma venue_distance_cong:
  "h2 a = h a \<Longrightarrow> h2 b = h b \<Longrightarrow> venue_distance g h2 a b = venue_distance g h a b"
  by (simp add: venue_distance_def)

lemma distance_loop_cong:
  "\<forall>r\<in>set optimized. h2 r = h r \<Longrightarrow>
   snd (distance_loop fadd g optimized i h2 tot) = snd (distance_loop fadd g optimized i h tot)
   \<and> (\<forall>r\<in>set optimized. fst (distance_loop fadd g optimized i h2 tot) r
                           = fst (distance_loop fadd g optimized i h tot) r)"
proof (induction fadd g optimized i h tot arbitrary: h2 rule: distance_loop.induct)
  case (1 fadd g optimized i h tot)
  show ?case
  proof (cases "i < length optimized - 1")
    case False
    then show ?thesis using "1.prems" by (simp add: distance_loop_unfold_done)
  next
    case True
    have ia: "optimized ! i \<in> set optimized" and ib: "optimized ! (i + 1) \<in> set optimized"
      using True by simp_all
    have vd: "venue_distance g h2 (optimized ! i) (optimized ! (i + 1))
        = venue_distance g h (optimized ! i) (optimized ! (i + 1))"
      by (rule venue_distance_cong) (use "1.prems" ia ib in simp_all)
    let ?v = "Num (round_ndigits (venue_distance g h (optimized ! i) (optimized ! (i + 1))) 2)"
    have agree: "\<forall>r\<in>set optimized.
        set_field h2 (optimized ! i) ''distance_to_next'' ?v r
        = set_field h (optimized ! i) ''distance_to_next'' ?v r"
      using "1.prems" by (simp add: set_field_def)
    show ?thesis
      unfolding distance_loop_unfold_step [OF True] vd
      using "1.IH" [OF True refl refl refl agree [unfolded venue_distance_def]]
      by (simp add: venue_distance_def)
  qed
qed

lemma optimized_refs_cong:
  "\<forall>r\<in>set locations. h2 r = h r \<Longrightarrow>
   optimized_refs g h2 locations start = optimized_refs g h locations start"
proof -
  assume "\<forall>r\<in>set locations. h2 r = h r"
  then have "map (\<lambda>r. coords_of (h2 r)) locations = map (\<lambda>r. coords_of (h r)) locations"
    by simp
  then show ?thesis unfolding optimized_refs_def by (simp only:)
qed

lemma optimize_route_cong:
  assumes "\<forall>r\<in>set locations. h2 r = h r"
  shows "snd (optimize_route fadd g h2 locations start) = snd (optimize_route fadd g h locations start)
     \<and> (\<forall>r\<in>set locations. fst (optimize_route fadd g h2 locations start) r
                             = fst (optimize_route fadd g h locations start) r)"
proof (cases "locations = []")
  case True
  then show ?thesis by (simp add: optimize_route_def)
next
  case False
  let ?opt = "optimized_refs g h locations start"
  have o: "optimized_refs g h2 locations start = ?opt"
    using assms by (rule optimized_refs_cong)
  have s: "set ?opt = set locations"
    using mset_optimized_refs [of g h locations start] by (rule mset_eq_setD)
  have "\<forall>r\<in>set ?opt. h2 r = h r" using assms s by simp
  then have c: "snd (distance_loop fadd g ?opt 0 h2 0) = snd (distance_loop fadd g ?opt 0 h 0)
      \<and> (\<forall>r\<in>set ?opt. fst (distance_loop fadd g ?opt 0 h2 0) r = fst (distance_loop fadd g ?opt 0 h 0) r)"
    by (rule distance_loop_cong)
  show ?thesis
    unfolding optimize_route_unfold [OF False] o using c s
    by (simp add: set_field_def)
qed

text \<open>
  Claim C3, as amended. For a day list of two or more distinct venue objects,
  \<open>optimize_route\<close> returns the venues in the order of \<open>nearest_neighbor_route\<close>; every
  venue but the last carries as \<open>distance_to_next\<close> the distance to its successor
  rounded to two decimal places, the last venue carries 0, and the returned total is the
  float sum of the unrounded distances of the consecutive pairs: starting from 0 they
  are added one by one, in the order of the route, with the float addition. For two
  venues the only addition is \<open>0 + d\<close>, which is \<open>d\<close>, and the total is the distance of
  the pair.
\<close>

theorem optimize_route_distances:
  assumes "2 \<le> length locations" and "distinct locations"
  shows "\<exists>h' optimized total_distance.
      optimize_route fadd g h locations start = (h', WithTotal optimized total_distance)
      \<and> optimized = map (\<lambda>i. locations ! i)
            (nearest_neighbor_route g (map (\<lambda>r. coords_of (h r)) locations) start)
      \<and> length optimized = length locations
      \<and> (\<forall>i. i + 1 < length optimized \<longrightarrow>
            h' (optimized ! i) ''distance_to_next'' =
              Some (Num (round_ndigits
                (venue_distance g h (optimized ! i) (optimized ! (i + 1))) 2)))
      \<and> h' (last optimized) ''distance_to_next'' = Some (Num 0)
      \<and> total_distance =
          foldl fadd 0
            (map (\<lambda>i. venue_distance g h (optimized ! i) (optimized ! (i + 1)))
               [0..<length optimized - 1])
      \<and> ((\<forall>x. fadd 0 x = x) \<and> length locations = 2 \<longrightarrow>
            total_distance = venue_distance g h (optimized ! 0) (optimized ! 1))"
proof -
  let ?opt = "optimized_refs g h locations start"
  let ?loop = "distance_loop fadd g ?opt 0 h 0"
  let ?h' = "set_field (fst ?loop) (last ?opt) ''distance_to_next'' (Num 0)"
  have ne: "locations \<noteq> []" using assms(1) by auto
  have u: "optimize_route fadd g h locations start = (?h', WithTotal ?opt (snd ?loop))"
    by (rule optimize_route_unfold [OF ne])
  have m: "mset ?opt = mset locations" by (rule mset_optimized_refs)
  have len: "length ?opt = length locations" using m by (rule mset_eq_length)
  have dist: "distinct ?opt" using m assms(2) by (metis mset_eq_imp_distinct_iff)
  have opt_ne: "?opt \<noteq> []" using len ne by auto
  have last_nth: "last ?opt = ?opt ! (length ?opt - 1)" using opt_ne by (rule last_conv_nth)
  have written: "\<forall>i. i + 1 < length ?opt \<longrightarrow>
      ?h' (?opt ! i) ''distance_to_next'' =
        Some (Num (round_ndigits (venue_distance g h (?opt ! i) (?opt ! (i + 1))) 2))"
  proof (intro allI impI)
    fix i assume i: "i + 1 < length ?opt"
    then have "?opt ! i \<noteq> ?opt ! (length ?opt - 1)"
      using dist by (simp add: nth_eq_iff_index_eq)
    then have "?h' (?opt ! i) = fst ?loop (?opt ! i)"
      unfolding last_nth by (simp add: set_field_other_ref)
    moreover have "fst ?loop (?opt ! i) ''distance_to_next'' =
        Some (Num (round_ndigits (venue_distance g h (?opt ! i) (?opt ! (i + 1))) 2))"
      using dist _ _ by (rule distance_loop_written) (use i in simp_all)
    ultimately show "?h' (?opt ! i) ''distance_to_next'' =
        Some (Num (round_ndigits (venue_distance g h (?opt ! i) (?opt ! (i + 1))) 2))"
      by simp
  qed
  have final: "?h' (last ?opt) ''distance_to_next'' = Some (Num 0)"
    by (rule set_field_same)
  have tot: "snd ?loop = foldl fadd 0
      (map (\<lambda>i. venue_distance g h (?opt ! i) (?opt ! (i + 1))) [0..<length ?opt - 1])"
    by (rule distance_loop_total)
  have two: "(\<forall>x. fadd 0 x = x) \<and> length locations = 2 \<longrightarrow>
      snd ?loop = venue_distance g h (?opt ! 0) (?opt ! 1)"
  proof
    assume a: "(\<forall>x. fadd 0 x = x) \<and> length locations = 2"
    then have "[0..<length ?opt - 1] = [0]" using len by simp
    then show "snd ?loop = venue_distance g h (?opt ! 0) (?opt ! 1)"
      using tot a by simp
  qed
  have shape: "?opt = map (\<lambda>i. locations ! i)
            (nearest_neighbor_route g (map (\<lambda>r. coords_of (h r)) locations) start)"
    by (simp add: optimized_refs_def)
  show ?thesis
    using u shape len written final tot two by blast
qed

text \<open>
  Claim C9. \<open>optimize_route\<close> only reorders the venues and writes the field
  \<open>distance_to_next\<close>: every other field of every dict in the store is unchanged, no
  dict outside the input list is written, the returned list has exactly the venues of
  the input (the same multiset of references), and the outcome is a function of the
  listed venues alone: two stores that agree on the listed dicts give the same route,
  the same total and the same dicts for the listed venues.
\<close>

theorem optimize_route_frame:
  "(\<forall>r k. k \<noteq> ''distance_to_next'' \<longrightarrow> fst (optimize_route fadd g h locations start) r k = h r k)
   \<and> (\<forall>r. r \<notin> set locations \<longrightarrow> fst (optimize_route fadd g h locations start) r = h r)
   \<and> mset (route_of (snd (optimize_route fadd g h locations start))) = mset locations
   \<and> ((\<forall>r\<in>set locations. h2 r = h r) \<longrightarrow>
        snd (optimize_route fadd g h2 locations start) = snd (optimize_route fadd g h locations start)
        \<and> (\<forall>r\<in>set locations. fst (optimize_route fadd g h2 locations start) r
                                = fst (optimize_route fadd g h locations start) r))"
proof (cases "locations = []")
  case True
  then show ?thesis by (simp add: optimize_route_def)
next
  case False
  let ?opt = "optimized_refs g h locations start"
  let ?loop = "distance_loop fadd g ?opt 0 h 0"
  have u: "optimize_route fadd g h locations start =
      (set_field (fst ?loop) (last ?opt) ''distance_to_next'' (Num 0), WithTotal ?opt (snd ?loop))"
    by (rule optimize_route_unfold [OF False])
  have m: "mset ?opt = mset locations" by (rule mset_optimized_refs)
  have s: "set ?opt = set locations" using m by (rule mset_eq_setD)
  have opt_ne: "?opt \<noteq> []" using s False by auto
  have a: "\<forall>r k. k \<noteq> ''distance_to_next'' \<longrightarrow> fst (optimize_route fadd g h locations start) r k = h r k"
    unfolding u by (simp add: set_field_other_key distance_loop_frame)
  have b: "\<forall>r. r \<notin> set locations \<longrightarrow> fst (optimize_route fadd g h locations start) r = h r"
  proof (intro allI impI)
    fix r assume r: "r \<notin> set locations"
    then have "r \<noteq> last ?opt" using s opt_ne last_in_set by metis
    moreover have "fst ?loop r = h r"
    proof (rule distance_loop_untouched, intro allI impI)
      fix j assume "0 \<le> j \<and> j < length ?opt - 1"
      then have "?opt ! j \<in> set ?opt" by simp
      then show "?opt ! j \<noteq> r" using r s by auto
    qed
    ultimately show "fst (optimize_route fadd g h locations start) r = h r"
      unfolding u by (simp add: set_field_other_ref)
  qed
  have c: "mset (route_of (snd (optimize_route fadd g h locations start))) = mset locations"
    unfolding u using m by simp
  have d: "(\<forall>r\<in>set locations. h2 r = h r) \<longrightarrow>
        snd (optimize_route fadd g h2 locations start) = snd (optimize_route fadd g h locations start)
        \<and> (\<forall>r\<in>set locations. fst (optimize_route fadd g h2 locations start) r
                                = fst (optimize_route fadd g h locations start) r)"
    using optimize_route_cong [where locations = locations and ?h2.0 = h2 and h = h] by blast
  show ?thesis using a b c d by (intro conjI)
qed


lemma upt2: "[0..<2] = [0, 1]" "[1..<2] = [1]"
  by (simp_all add: upt_rec)

lemma py_round_example: "py_round (123 / 10) = 12"
  by (simp add: py_round_def Let_def)

lemma optimized_refs_example:
  "optimized_refs flat_km_val (line_heap [0, 123 / 1000]) [0, Suc 0] None = [0, Suc 0]"
  by (simp add: optimized_refs_def nearest_neighbor_route_def Let_def upt2)

lemma optimize_route_example:
  "optimize_route (+) flat_km_val (line_heap [0, 123 / 1000]) [0, Suc 0] None =
     (set_field (set_field (line_heap [0, 123 / 1000]) 0 ''distance_to_next'' (Num (12 / 100)))
        (Suc 0) ''distance_to_next'' (Num 0),
      WithTotal [0, Suc 0] (123 / 1000))"
  by (simp add: optimize_route_unfold optimized_refs_example distance_loop_unfold_step
      distance_loop_unfold_done line_heap_distance round_ndigits_def py_round_example)

theorem optimize_route_distances_witness:
  "2 \<le> length [0, 1 :: nat] \<and> distinct [0, 1 :: nat]
   \<and> (\<exists>h' optimized total_distance.
        optimize_route (+) flat_km_val (line_heap [0, 123 / 1000]) [0, 1] None
          = (h', WithTotal optimized total_distance)
        \<and> optimized = [0, 1]
        \<and> h' 0 ''distance_to_next'' = Some (Num (12 / 100))
        \<and> h' 1 ''distance_to_next'' = Some (Num 0)
        \<and> total_distance = 123 / 1000)
   \<and> (\<forall>x :: real. 0 + x = x) \<and> length [0, 1 :: nat] = 2"
proof -
  have a: "2 \<le> length [0, 1 :: nat]" and b: "distinct [0, 1 :: nat]" by simp_all
  obtain h' optimized total_distance where
    r: "optimize_route (+) flat_km_val (line_heap [0, 123 / 1000]) [0, 1] None
          = (h', WithTotal optimized total_distance)"
    and w: "\<forall>i. i + 1 < length optimized \<longrightarrow>
            h' (optimized ! i) ''distance_to_next'' =
              Some (Num (round_ndigits
                (venue_distance flat_km_val (line_heap [0, 123 / 1000])
                   (optimized ! i) (optimized ! (i + 1))) 2))"
    and f: "h' (last optimized) ''distance_to_next'' = Some (Num 0)"
    and t: "total_distance =
          foldl (+) 0
            (map (\<lambda>i. venue_distance flat_km_val (line_heap [0, 123 / 1000])
                    (optimized ! i) (optimized ! (i + 1)))
               [0..<length optimized - 1])"
    using optimize_route_distances [OF a b, where fadd = "(+)" and g = flat_km_val
        and h = "line_heap [0, 123 / 1000]" and start = None]
    by blast
  have o: "optimized = [0, 1]" using r by (simp add: optimize_route_example)
  have "h' 0 ''distance_to_next'' = Some (Num (12 / 100))"
    using w [rule_format, of 0] unfolding o
    by (simp add: line_heap_distance round_ndigits_def py_round_example)
  moreover have "h' 1 ''distance_to_next'' = Some (Num 0)" using f unfolding o by simp
  moreover have "total_distance = 123 / 1000" using t unfolding o
    by (simp add: line_heap_distance)
  moreover have "(\<forall>x :: real. 0 + x = x) \<and> length [0, 1 :: nat] = 2" by simp
  ultimately show ?thesis using a b r o by blast
qed

lemma optimized_refs_alias_example:
  "optimized_refs flat_km_val (line_heap [0, 5]) [0, Suc 0, 0] None = [0, 0, Suc 0]"
  by (simp add: optimized_refs_def nearest_neighbor_route_def Let_def upt3 leg_def
      calculate_distance_def flat_km_val_def flat_km_def coords_of_def line_heap_def dict_get_def)

lemma optimize_route_alias_example:
  "fst (optimize_route (+) flat_km_val (line_heap [0, 5]) [0, Suc 0, 0] None) 0 ''distance_to_next''
     = Some (Num 5)
   \<and> snd (optimize_route (+) flat_km_val (line_heap [0, 5]) [0, Suc 0, 0] None)
     = WithTotal [0, 0, Suc 0] 5"
  by (simp add: optimize_route_unfold optimized_refs_alias_example distance_loop_unfold_step
      distance_loop_unfold_done line_heap_distance round_ndigits_def
      py_round_of_int [of 500, simplified] py_round_of_int [of 0, simplified]
      venue_distance_set_field set_field_other_ref set_field_same)

text \<open>
  The claim as first stated attaches the distance itself, for every day list. Two venues
  0.123 km apart: the first carries 0.12, which is not the distance. And in the list
  \<open>[a, b, a]\<close>, where the object \<open>a\<close> occurs twice and \<open>b\<close> is 5 km away, the route is
  \<open>[a, a, b]\<close>: its first venue is at distance 0 from its successor and carries 5.
\<close>

theorem optimize_route_rounds_counterexample:
  "fst (optimize_route (+) flat_km_val (line_heap [0, 123 / 1000]) [0, 1] None) 0 ''distance_to_next''
     = Some (Num (12 / 100))
   \<and> venue_distance flat_km_val (line_heap [0, 123 / 1000]) 0 1 = 123 / 1000
   \<and> fst (optimize_route (+) flat_km_val (line_heap [0, 123 / 1000]) [0, 1] None) 0 ''distance_to_next''
     \<noteq> Some (Num (venue_distance flat_km_val (line_heap [0, 123 / 1000]) 0 1))
   \<and> snd (optimize_route (+) flat_km_val (line_heap [0, 5]) [0, 1, 0] None) = WithTotal [0, 0, 1] 5
   \<and> fst (optimize_route (+) flat_km_val (line_heap [0, 5]) [0, 1, 0] None) 0 ''distance_to_next''
     = Some (Num 5)
   \<and> venue_distance flat_km_val (line_heap [0, 5]) 0 0 = 0"
  using optimize_route_alias_example
  by (simp add: optimize_route_example set_field_def line_heap_distance)

theorem optimize_route_frame_witness:
  "''latitude'' \<noteq> ''distance_to_next''
   \<and> fst (optimize_route (+) flat_km_val (line_heap [0, 123 / 1000]) [0, 1] None) 0 ''latitude''
       = line_heap [0, 123 / 1000] 0 ''latitude''
   \<and> 2 \<notin> set [0, 1 :: nat]
   \<and> fst (optimize_route (+) flat_km_val (line_heap [0, 123 / 1000]) [0, 1] None) 2
       = line_heap [0, 123 / 1000] 2
   \<and> line_heap [0, 123 / 1000, 7] 0 = line_heap [0, 123 / 1000] 0
   \<and> line_heap [0, 123 / 1000, 7] 1 = line_heap [0, 123 / 1000] 1
   \<and> snd (optimize_route (+) flat_km_val (line_heap [0, 123 / 1000, 7]) [0, 1] None)
       = snd (optimize_route (+) flat_km_val (line_heap [0, 123 / 1000]) [0, 1] None)"
  using optimize_route_frame [where fadd = "(+)" and g = flat_km_val and h = "line_heap [0, 123 / 1000]"
      and locations = "[0, 1]" and start = None and ?h2.0 = "line_heap [0, 123 / 1000, 7]"]
  by (simp add: line_heap_def)

section \<open>Missing coordinate keys\<close>

lemma coords_of_with_default: "coords_of (with_default_coords loc) = coords_of loc"
  by (simp add: coords_of_def with_default_coords_def dict_get_def)

lemma venue_distance_with_default:
  "venue_distance g (\<lambda>r. with_default_coords (h r)) a b = venue_distance g h a b"
  by (simp add: venue_distance_def with_default_coords_def dict_get_def)

lemma cluster_loop_distance_cong:
  assumes "\<forall>a b. venue_distance g h2 a b = venue_distance g h a b"
  shows "cluster_loop g h2 m clusters unassigned = cluster_loop g h m clusters unassigned"
proof (induction "length unassigned" arbitrary: clusters unassigned rule: less_induct)
  case less
  show ?case
  proof (cases unassigned)
    case Nil
    then show ?thesis by simp
  next
    case (Cons u us)
    let ?near = "filter (\<lambda>r. venue_distance g h u r \<le> m) us"
    let ?far = "filter (\<lambda>r. \<not> venue_distance g h u r \<le> m) us"
    have l: "length ?far < length unassigned" using Cons by (simp add: less_Suc_eq_le)
    have "cluster_loop g h2 m clusters (u # us) =
        cluster_loop g h2 m (clusters @ [u # ?near]) ?far"
      unfolding cluster_loop_step using assms by simp
    also have "\<dots> = cluster_loop g h m (clusters @ [u # ?near]) ?far"
      by (rule less.hyps [OF l])
    also have "\<dots> = cluster_loop g h m clusters (u # us)"
      unfolding cluster_loop_step by simp
    finally show ?thesis unfolding Cons .
  qed
qed

lemma distance_total_with_default:
  "snd (distance_loop fadd g optimized i (\<lambda>r. with_default_coords (h r)) tot)
     = snd (distance_loop fadd g optimized i h tot)"
  by (simp add: distance_loop_total venue_distance_with_default)

lemma optimized_refs_with_default:
  "optimized_refs g (\<lambda>r. with_default_coords (h r)) locations start
     = optimized_refs g h locations start"
  by (simp add: optimized_refs_def coords_of_with_default)

text \<open>
  Claim C10, as amended. A venue dict without a \<open>latitude\<close> (or \<open>longitude\<close>) key is
  read with that coordinate equal to 0; without both keys it lies at \<open>(0, 0)\<close>.
  \<open>optimize_route\<close> and \<open>cluster_by_proximity\<close> are total on such venues and give the
  results they give when every missing coordinate is written into the dict as 0; the
  venue stays in the route and in a cluster.
\<close>

theorem missing_coordinate_defaults_to_zero:
  "(loc ''latitude'' = None \<longrightarrow> fst (coords_of loc) = Num 0)
   \<and> (loc ''longitude'' = None \<longrightarrow> snd (coords_of loc) = Num 0)
   \<and> (loc ''latitude'' = None \<and> loc ''longitude'' = None \<longrightarrow> coords_of loc = (Num 0, Num 0))
   \<and> snd (optimize_route fadd g h locations start)
       = snd (optimize_route fadd g (\<lambda>r. with_default_coords (h r)) locations start)
   \<and> mset (route_of (snd (optimize_route fadd g h locations start))) = mset locations
   \<and> (locations \<noteq> [] \<longrightarrow>
        (\<exists>h' optimized total_distance.
           optimize_route fadd g h locations start = (h', WithTotal optimized total_distance)))
   \<and> cluster_by_proximity g h locations m
       = cluster_by_proximity g (\<lambda>r. with_default_coords (h r)) locations m
   \<and> mset (concat (cluster_by_proximity g h locations m)) = mset locations"
proof -
  have a: "(loc ''latitude'' = None \<longrightarrow> fst (coords_of loc) = Num 0)
      \<and> (loc ''longitude'' = None \<longrightarrow> snd (coords_of loc) = Num 0)
      \<and> (loc ''latitude'' = None \<and> loc ''longitude'' = None \<longrightarrow> coords_of loc = (Num 0, Num 0))"
    by (simp add: coords_of_def dict_get_def)
  have b: "snd (optimize_route fadd g h locations start)
       = snd (optimize_route fadd g (\<lambda>r. with_default_coords (h r)) locations start)"
  proof (cases "locations = []")
    case True
    then show ?thesis by (simp add: optimize_route_def)
  next
    case False
    show ?thesis
      unfolding optimize_route_unfold [OF False] optimized_refs_with_default
      by (simp add: distance_total_with_default)
  qed
  have c: "mset (route_of (snd (optimize_route fadd g h locations start))) = mset locations"
  proof (cases "locations = []")
    case True
    then show ?thesis by (simp add: optimize_route_def)
  next
    case False
    show ?thesis unfolding optimize_route_unfold [OF False] by (simp add: mset_optimized_refs)
  qed
  have d: "locations \<noteq> [] \<longrightarrow>
        (\<exists>h' optimized total_distance.
           optimize_route fadd g h locations start = (h', WithTotal optimized total_distance))"
    using optimize_route_unfold [of locations fadd g h start] by blast
  have e: "cluster_by_proximity g h locations m
       = cluster_by_proximity g (\<lambda>r. with_default_coords (h r)) locations m"
    unfolding cluster_by_proximity_def
    using cluster_loop_distance_cong [of g "\<lambda>r. with_default_coords (h r)" h m "[]" locations]
    by (simp add: venue_distance_with_default)
  have f: "mset (concat (cluster_by_proximity g h locations m)) = mset locations"
    by (simp add: cluster_by_proximity_def mset_cluster_loop)
  show ?thesis using a b c d e f by (intro conjI) blast+
qed

lemma lon_only_heap_distance:
  "a < length lons \<Longrightarrow> b < length lons \<Longrightarrow>
   venue_distance flat_km_val (lon_only_heap lons) a b = \<bar>lons ! a - lons ! b\<bar>"
  by (simp add: venue_distance_def calculate_distance_def flat_km_val_def flat_km_def
      lon_only_heap_def dict_get_def)

lemma lon_only_cluster_example:
  "cluster_by_proximity flat_km_val (lon_only_heap [0, 10]) [0, Suc 0] 5 = [[0], [Suc 0]]"
  by (simp add: cluster_by_proximity_def cluster_loop_step lon_only_heap_distance
      del: cluster_loop.simps(2))

theorem missing_coordinate_defaults_to_zero_witness:
  "lon_only_heap [0, 10] 1 ''latitude'' = None
   \<and> fst (coords_of (lon_only_heap [0, 10] 1)) = Num 0
   \<and> [0, 1 :: nat] \<noteq> []
   \<and> (\<exists>h' optimized total_distance.
         optimize_route (+) flat_km_val (lon_only_heap [0, 10]) [0, 1] None
           = (h', WithTotal optimized total_distance))
   \<and> mset (concat (cluster_by_proximity flat_km_val (lon_only_heap [0, 10]) [0, 1] 5))
       = mset [0, 1]"
proof -
  note T = missing_coordinate_defaults_to_zero [where loc = "lon_only_heap [0, 10] 1"
      and g = flat_km_val and h = "lon_only_heap [0, 10]" and locations = "[0, 1]"
      and start = None and m = 5]
  have a: "lon_only_heap [0, 10] 1 ''latitude'' = None" by (simp add: lon_only_heap_def)
  have b: "[0, 1 :: nat] \<noteq> []" by simp
  show ?thesis using T a b by blast
qed

text \<open>
  The claim as first stated places every venue that lacks one of the keys at \<open>(0, 0)\<close>.
  A venue with longitude 10 and no latitude key is read at \<open>(0, 10)\<close>: with threshold 5
  it is not clustered with a venue at the origin, as a venue at \<open>(0, 0)\<close> would be.
\<close>

theorem missing_latitude_not_origin_counterexample:
  "lon_only_heap [0, 10] 1 ''latitude'' = None
   \<and> coords_of (lon_only_heap [0, 10] 1) = (Num 0, Num 10)
   \<and> coords_of (lon_only_heap [0, 10] 1) \<noteq> (Num 0, Num 0)
   \<and> cluster_by_proximity flat_km_val (lon_only_heap [0, 10]) [0, 1] 5 = [[0], [1]]
   \<and> cluster_by_proximity flat_km_val (lon_only_heap [0, 0]) [0, 1] 5 = [[0, 1]]"
  by (simp add: lon_only_cluster_example coords_of_def dict_get_def lon_only_heap_def
      cluster_by_proximity_def cluster_loop_step venue_distance_def calculate_distance_def
      flat_km_val_def flat_km_def del: cluster_loop.simps(2))

section \<open>Venues without coordinates in the assembled locations\<close>

lemma traverse_append:
  "traverse f (xs @ ys) =
     (case traverse f xs of
        Inl e \<Rightarrow> Inl e
      | Inr a \<Rightarrow> (case traverse f ys of Inl e \<Rightarrow> Inl e | Inr b \<Rightarrow> Inr (a @ b)))"
  by (induction xs) (auto split: sum.splits)

lemma collect_skip:
  assumes "f x = Inr []"
  shows "collect f (xs @ x # ys) = collect f (xs @ ys)"
  using assms by (auto simp: collect_def traverse_append split: sum.splits)

lemma collect_cong_at:
  assumes "f x = f y"
  shows "collect f (xs @ x # ys) = collect f (xs @ y # ys)"
  using assms by (auto simp: collect_def traverse_append split: sum.splits)

lemma calculate_route_cong:
  "extract_locations lookup parse p = extract_locations lookup parse q \<Longrightarrow>
   calculate_route fadd g lookup parse p = calculate_route fadd g lookup parse q"
  by (simp add: calculate_route_def)

lemma hotel_unresolved:
  assumes "dict_get hotel ''latitude'' (Num 0) = Num 0"
    and "dict_get hotel ''longitude'' (Num 0) = Num 0"
    and "lookup (dict_get hotel ''name'' (Str '''')) (dict_get hotel ''address'' (Str '''')) = None"
  shows "hotel_entries lookup hotel = []"
  using assms by (simp add: hotel_entries_def Let_def)

lemma hotel_resolved:
  assumes "dict_get hotel ''latitude'' (Num 0) = Num 0"
    and "dict_get hotel ''longitude'' (Num 0) = Num 0"
    and "lookup (dict_get hotel ''name'' (Str '''')) (dict_get hotel ''address'' (Str '''')) = Some (a, b)"
    and "a \<noteq> 0" and "b \<noteq> 0"
  shows "map (\<lambda>l. (l ''lat'', l ''lng'')) (hotel_entries lookup hotel)
           = [(Some (Num a), Some (Num b))]"
  using assms by (simp add: hotel_entries_def Let_def)

lemma extract_locations_skip_hotel:
  assumes "hotel_entries lookup hotel = []"
  shows "extract_locations lookup parse (p\<lparr>hotels := hs1 @ hotel # hs2\<rparr>)
           = extract_locations lookup parse (p\<lparr>hotels := hs1 @ hs2\<rparr>)"
  using assms by (simp add: extract_locations_def split: sum.splits)

lemma attraction_zero:
  assumes "dict_get attraction ''latitude'' (Num 0) = Num 0"
    and "dict_get attraction ''longitude'' (Num 0) = Num 0"
  shows "attraction_entries parse day_key time_slot attraction = Inr []"
proof -
  have "\<not> truthy (attraction ''latitude'')"
    using assms(1) by (cases "attraction ''latitude''") (auto simp: dict_get_def)
  then show ?thesis by (simp add: attraction_entries_def)
qed

lemma day_attraction_skip:
  assumes "attraction_entries parse day_key time_slot attraction = Inr []"
  shows "day_attraction_entries parse (day_key, slots(time_slot \<mapsto> xs1 @ attraction # xs2))
           = day_attraction_entries parse (day_key, slots(time_slot \<mapsto> xs1 @ xs2))"
proof -
  have "\<And>s. collect (attraction_entries parse day_key s)
          (case (slots(time_slot \<mapsto> xs1 @ attraction # xs2)) s of Some xs \<Rightarrow> xs | None \<Rightarrow> [])
        = collect (attraction_entries parse day_key s)
          (case (slots(time_slot \<mapsto> xs1 @ xs2)) s of Some xs \<Rightarrow> xs | None \<Rightarrow> [])"
    using collect_skip [of "attraction_entries parse day_key time_slot" attraction xs1 xs2, OF assms]
    by simp
  then show ?thesis by (simp add: day_attraction_entries_def)
qed

lemma extract_locations_skip_attraction:
  assumes "attraction_entries parse day_key time_slot attraction = Inr []"
  shows "extract_locations lookup parse
           (p\<lparr>attractions := as1 @ (day_key, slots(time_slot \<mapsto> xs1 @ attraction # xs2)) # as2\<rparr>)
         = extract_locations lookup parse
           (p\<lparr>attractions := as1 @ (day_key, slots(time_slot \<mapsto> xs1 @ xs2)) # as2\<rparr>)"
proof -
  have "collect (day_attraction_entries parse)
          (as1 @ (day_key, slots(time_slot \<mapsto> xs1 @ attraction # xs2)) # as2)
        = collect (day_attraction_entries parse)
          (as1 @ (day_key, slots(time_slot \<mapsto> xs1 @ xs2)) # as2)"
    by (rule collect_cong_at) (rule day_attraction_skip [OF assms])
  then show ?thesis by (simp add: extract_locations_def split: sum.splits)
qed


text \<open>
  Claim C5, as amended. A hotel whose coordinates read \<open>(0, 0)\<close> is looked up with
  \<open>get_hotel_coordinates\<close>; when the lookup finds nothing the hotel yields no location:
  \<open>extract_locations\<close> and \<open>calculate_route\<close> give what they give for the plan without
  it, so it is in no route, adds no distance and raises nothing. When the lookup finds a
  pair of non-zero coordinates the hotel is located there. An attraction whose
  coordinates read \<open>(0, 0)\<close> is left out in the same way, with no lookup. The plan
  itself is returned unchanged in the response, next to the locations.
\<close>

theorem zero_coordinate_venues_skipped:
  "(dict_get hotel ''latitude'' (Num 0) = Num 0 \<and> dict_get hotel ''longitude'' (Num 0) = Num 0
      \<and> lookup (dict_get hotel ''name'' (Str '''')) (dict_get hotel ''address'' (Str '''')) = None
    \<longrightarrow> hotel_entries lookup hotel = []
      \<and> extract_locations lookup parse (p\<lparr>hotels := hs1 @ hotel # hs2\<rparr>)
          = extract_locations lookup parse (p\<lparr>hotels := hs1 @ hs2\<rparr>)
      \<and> calculate_route fadd g lookup parse (p\<lparr>hotels := hs1 @ hotel # hs2\<rparr>)
          = calculate_route fadd g lookup parse (p\<lparr>hotels := hs1 @ hs2\<rparr>))
   \<and> (dict_get hotel ''latitude'' (Num 0) = Num 0 \<and> dict_get hotel ''longitude'' (Num 0) = Num 0
      \<and> lookup (dict_get hotel ''name'' (Str '''')) (dict_get hotel ''address'' (Str ''''))
          = Some (a, b)
      \<and> a \<noteq> 0 \<and> b \<noteq> 0
    \<longrightarrow> map (\<lambda>l. (l ''lat'', l ''lng'')) (hotel_entries lookup hotel)
          = [(Some (Num a), Some (Num b))])
   \<and> (dict_get attraction ''latitude'' (Num 0) = Num 0
      \<and> dict_get attraction ''longitude'' (Num 0) = Num 0
    \<longrightarrow> attraction_entries parse day_key time_slot attraction = Inr []
      \<and> extract_locations lookup parse
           (p\<lparr>attractions := as1 @ (day_key, slots(time_slot \<mapsto> xs1 @ attraction # xs2)) # as2\<rparr>)
          = extract_locations lookup parse
           (p\<lparr>attractions := as1 @ (day_key, slots(time_slot \<mapsto> xs1 @ xs2)) # as2\<rparr>)
      \<and> calculate_route fadd g lookup parse
           (p\<lparr>attractions := as1 @ (day_key, slots(time_slot \<mapsto> xs1 @ attraction # xs2)) # as2\<rparr>)
          = calculate_route fadd g lookup parse
           (p\<lparr>attractions := as1 @ (day_key, slots(time_slot \<mapsto> xs1 @ xs2)) # as2\<rparr>))
   \<and> (build_response fadd g lookup parse p = Inr rsp
    \<longrightarrow> resp_plan rsp = p \<and> extract_locations lookup parse p = Inr (resp_locations rsp))"
proof (intro conjI impI)
  assume h: "dict_get hotel ''latitude'' (Num 0) = Num 0 \<and> dict_get hotel ''longitude'' (Num 0) = Num 0
      \<and> lookup (dict_get hotel ''name'' (Str '''')) (dict_get hotel ''address'' (Str '''')) = None"
  then show e: "hotel_entries lookup hotel = []" by (simp add: hotel_unresolved)
  show x: "extract_locations lookup parse (p\<lparr>hotels := hs1 @ hotel # hs2\<rparr>)
          = extract_locations lookup parse (p\<lparr>hotels := hs1 @ hs2\<rparr>)"
    by (rule extract_locations_skip_hotel [OF e])
  show "calculate_route fadd g lookup parse (p\<lparr>hotels := hs1 @ hotel # hs2\<rparr>)
          = calculate_route fadd g lookup parse (p\<lparr>hotels := hs1 @ hs2\<rparr>)"
    by (rule calculate_route_cong [OF x])
next
  assume "dict_get hotel ''latitude'' (Num 0) = Num 0 \<and> dict_get hotel ''longitude'' (Num 0) = Num 0
      \<and> lookup (dict_get hotel ''name'' (Str '''')) (dict_get hotel ''address'' (Str ''''))
          = Some (a, b)
      \<and> a \<noteq> 0 \<and> b \<noteq> 0"
  then show "map (\<lambda>l. (l ''lat'', l ''lng'')) (hotel_entries lookup hotel)
          = [(Some (Num a), Some (Num b))]"
    by (simp add: hotel_resolved)
next
  assume "dict_get attraction ''latitude'' (Num 0) = Num 0
      \<and> dict_get attraction ''longitude'' (Num 0) = Num 0"
  then show e: "attraction_entries parse day_key time_slot attraction = Inr []"
    by (simp add: attraction_zero)
  show x: "extract_locations lookup parse
           (p\<lparr>attractions := as1 @ (day_key, slots(time_slot \<mapsto> xs1 @ attraction # xs2)) # as2\<rparr>)
          = extract_locations lookup parse
           (p\<lparr>attractions := as1 @ (day_key, slots(time_slot \<mapsto> xs1 @ xs2)) # as2\<rparr>)"
    by (rule extract_locations_skip_attraction [OF e])
  show "calculate_route fadd g lookup parse
           (p\<lparr>attractions := as1 @ (day_key, slots(time_slot \<mapsto> xs1 @ attraction # xs2)) # as2\<rparr>)
          = calculate_route fadd g lookup parse
           (p\<lparr>attractions := as1 @ (day_key, slots(time_slot \<mapsto> xs1 @ xs2)) # as2\<rparr>)"
    by (rule calculate_route_cong [OF x])
next
  assume r: "build_response fadd g lookup parse p = Inr rsp"
  then show "resp_plan rsp = p"
    by (auto simp: build_response_def split: sum.splits)
  show "extract_locations lookup parse p = Inr (resp_locations rsp)"
    using r by (auto simp: build_response_def split: sum.splits)
qed

theorem zero_coordinate_venues_skipped_witness:
  "dict_get [''name'' \<mapsto> Str ''Inn'', ''latitude'' \<mapsto> Num 0, ''longitude'' \<mapsto> Num 0]
       ''latitude'' (Num 0) = Num 0
   \<and> dict_get [''name'' \<mapsto> Str ''Inn'', ''latitude'' \<mapsto> Num 0, ''longitude'' \<mapsto> Num 0]
       ''longitude'' (Num 0) = Num 0
   \<and> hotel_entries (\<lambda>name address. None)
        [''name'' \<mapsto> Str ''Inn'', ''latitude'' \<mapsto> Num 0, ''longitude'' \<mapsto> Num 0] = []
   \<and> extract_locations (\<lambda>name address. None) (\<lambda>s. None)
        (\<lparr>hotels = [], attractions = [], restaurants = []\<rparr>
           \<lparr>hotels := [] @ [''name'' \<mapsto> Str ''Inn'', ''latitude'' \<mapsto> Num 0, ''longitude'' \<mapsto> Num 0] # []\<rparr>)
       = Inr []
   \<and> attraction_entries (\<lambda>s. None) ''Day 1'' ''morning''
        [''latitude'' \<mapsto> Num 0, ''longitude'' \<mapsto> Num 0] = Inr []"
proof -
  let ?H = "[''name'' \<mapsto> Str ''Inn'', ''latitude'' \<mapsto> Num 0, ''longitude'' \<mapsto> Num 0]"
  let ?A = "[''latitude'' \<mapsto> Num 0, ''longitude'' \<mapsto> Num (0 :: real)]"
  note T = zero_coordinate_venues_skipped [where hotel = ?H and lookup = "\<lambda>name address. None"
      and parse = "\<lambda>s. None" and p = "\<lparr>hotels = [], attractions = [], restaurants = []\<rparr>"
      and ?hs1.0 = "[]" and ?hs2.0 = "[]" and attraction = ?A and day_key = "''Day 1''"
      and time_slot = "''morning''"]
  have a: "dict_get ?H ''latitude'' (Num 0) = Num 0" "dict_get ?H ''longitude'' (Num 0) = Num 0"
    "dict_get ?A ''latitude'' (Num 0) = Num 0" "dict_get ?A ''longitude'' (Num 0) = Num 0"
    by (simp_all add: dict_get_def)
  have b: "extract_locations (\<lambda>name address. None) (\<lambda>s. None)
        (\<lparr>hotels = [], attractions = [], restaurants = []\<rparr>\<lparr>hotels := [] @ []\<rparr>) = Inr []"
    by (simp add: extract_locations_def collect_def)
  show ?thesis using T a b by simp
qed

lemma upt2': "[0..<2] = [0, Suc 0]" "[Suc 0..<2] = [Suc 0]"
  by (simp_all add: upt_rec)


text \<open>
  The claim as first stated covers venues of every kind. An attraction at \<open>(0, 0)\<close> is
  dropped even when the lookup would resolve every name, and a restaurant at \<open>(0, 0)\<close>
  that carries both keys is kept: it is among the locations, and in the route of its
  day with a distance to the next venue.
\<close>

theorem zero_coordinate_other_kinds_counterexample:
  "extract_locations (\<lambda>name address. Some (49, - 123)) (\<lambda>s. None)
      \<lparr>hotels = [],
       attractions = [(''Day 1'', [''morning'' \<mapsto>
          [[''name'' \<mapsto> Str ''Park'', ''latitude'' \<mapsto> Num 0, ''longitude'' \<mapsto> Num 0]]])],
       restaurants = []\<rparr> = Inr []
   \<and> (case extract_locations (\<lambda>name address. None) (\<lambda>s. None)
          \<lparr>hotels = [], attractions = [],
           restaurants = [(''Day 1'', [(''lunch'',
             [[''name'' \<mapsto> Str ''Cafe'', ''latitude'' \<mapsto> Num 0, ''longitude'' \<mapsto> Num 0]])])]\<rparr>
       of Inl e \<Rightarrow> []
        | Inr locations \<Rightarrow> map (\<lambda>l. (l ''type'', l ''lat'', l ''lng'')) locations)
     = [(Some (Str ''restaurant''), Some (Num 0), Some (Num 0))]
   \<and> (case calculate_route (+) flat_km_val (\<lambda>name address. None) (\<lambda>s. None)
          \<lparr>hotels = [], attractions = [],
           restaurants = [(''Day 1'', [(''lunch'',
             [[''latitude'' \<mapsto> Num 0, ''longitude'' \<mapsto> Num 0],
              [''latitude'' \<mapsto> Num 0, ''longitude'' \<mapsto> Num 3]])])]\<rparr>
       of Inr (DayRoutes rs) \<Rightarrow>
            map (\<lambda>r. (fst r, map (\<lambda>l. (l ''lat'', l ''lng'', l ''distance_to_next'')) (fst (snd r)),
                       snd (snd r))) rs
        | _ \<Rightarrow> [])
     = [(Str ''Day 1'',
         [(Some (Num 0), Some (Num 0), Some (Num 3)), (Some (Num 0), Some (Num 3), Some (Num 0))],
         3)]"
proof (intro conjI)
  show "extract_locations (\<lambda>name address. Some (49, - 123)) (\<lambda>s. None)
      \<lparr>hotels = [],
       attractions = [(''Day 1'', [''morning'' \<mapsto>
          [[''name'' \<mapsto> Str ''Park'', ''latitude'' \<mapsto> Num 0, ''longitude'' \<mapsto> Num 0]]])],
       restaurants = []\<rparr> = Inr []"
    by (simp add: extract_locations_def collect_def day_attraction_entries_def
        attraction_entries_def)
  show "(case extract_locations (\<lambda>name address. None) (\<lambda>s. None)
          \<lparr>hotels = [], attractions = [],
           restaurants = [(''Day 1'', [(''lunch'',
             [[''name'' \<mapsto> Str ''Cafe'', ''latitude'' \<mapsto> Num 0, ''longitude'' \<mapsto> Num 0]])])]\<rparr>
       of Inl e \<Rightarrow> []
        | Inr locations \<Rightarrow> map (\<lambda>l. (l ''type'', l ''lat'', l ''lng'')) locations)
     = [(Some (Str ''restaurant''), Some (Num 0), Some (Num 0))]"
    by (simp add: extract_locations_def collect_def day_restaurant_entries_def
        restaurant_entries_def dict_get_def)
  show "(case calculate_route (+) flat_km_val (\<lambda>name address. None) (\<lambda>s. None)
          \<lparr>hotels = [], attractions = [],
           restaurants = [(''Day 1'', [(''lunch'',
             [[''latitude'' \<mapsto> Num 0, ''longitude'' \<mapsto> Num 0],
              [''latitude'' \<mapsto> Num 0, ''longitude'' \<mapsto> Num 3]])])]\<rparr>
       of Inr (DayRoutes rs) \<Rightarrow>
            map (\<lambda>r. (fst r, map (\<lambda>l. (l ''lat'', l ''lng'', l ''distance_to_next'')) (fst (snd r)),
                       snd (snd r))) rs
        | _ \<Rightarrow> [])
     = [(Str ''Day 1'',
         [(Some (Num 0), Some (Num 0), Some (Num 3)), (Some (Num 0), Some (Num 3), Some (Num 0))],
         3)]"
    by (simp add: calculate_route_def extract_locations_def collect_def
      day_restaurant_entries_def restaurant_entries_def dict_get_def group_by_day_def
      day_route_def loc_for_opt_def optimize_route_def Let_def nearest_neighbor_route_def
      upt2' leg_def calculate_distance_def flat_km_val_def flat_km_def
      distance_loop_unfold_step distance_loop_unfold_done venue_distance_def set_field_def
      round_ndigits_def py_round_of_int [of 300, simplified] map_add_def)
qed


end
